theory Spec2Isabelle
  imports Complex_Main "HOL-Library.Sublist" "HOL-Library.Signed_Division"
begin

section \<open>Awaited calls\<close>

text \<open>
  Every \<^verbatim>\<open>await\<close> of the script either resumes with a value or throws. The outcome of
  an awaited call on the chain client is an input of the model.
\<close>

datatype 'a outcome = Returns 'a | Throws string

section \<open>Price from reserves\<close>

text \<open>
  \<^verbatim>\<open>getCurrentPriceFromReservesSafe\<close> tries the WebSocket provider and then every HTTP
  provider, in up to five rounds. \<open>getReserves i j\<close> is what the call on provider \<open>j\<close> in
  round \<open>i\<close> gives: the two reserves, or \<open>None\<close> when the call throws or loses the race
  against the three-second timer. BigInt division truncates, which is \<open>sdiv\<close>.
\<close>

definition price_from_reserves :: "bool \<Rightarrow> (int \<times> int) option \<Rightarrow> int option" where
  "price_from_reserves tokenIsToken1 response =
     (case response of
        None \<Rightarrow> None
      | Some (reserve0, reserve1) \<Rightarrow>
          if reserve0 > 0 \<and> reserve1 > 0 then
            (let reserveWBNB = (if tokenIsToken1 then reserve0 else reserve1);
                 reserveToken = (if tokenIsToken1 then reserve1 else reserve0)
             in if reserveToken = 0 then None
                else Some ((reserveWBNB * 1000000 * 10 ^ 18) sdiv reserveToken))
          else None)"

fun try_providers :: "bool \<Rightarrow> (int \<times> int) option list \<Rightarrow> int option" where
  "try_providers tokenIsToken1 [] = None"
| "try_providers tokenIsToken1 (response # rest) =
     (case price_from_reserves tokenIsToken1 response of
        Some price \<Rightarrow> Some price
      | None \<Rightarrow> try_providers tokenIsToken1 rest)"

definition maxRetries :: nat where
  "maxRetries = 5"

function price_rounds ::
  "(nat \<Rightarrow> nat \<Rightarrow> (int \<times> int) option) \<Rightarrow> nat \<Rightarrow> bool \<Rightarrow> nat \<Rightarrow> int" where
  "price_rounds getReserves providers tokenIsToken1 i =
     (if i < maxRetries then
        (case try_providers tokenIsToken1 (map (getReserves i) [0..<providers]) of
           Some price \<Rightarrow> price
         | None \<Rightarrow> price_rounds getReserves providers tokenIsToken1 (i + 1))
      else 0)"
  by pat_completeness auto
termination
  by (relation "measure (\<lambda>(g, n, t, i). maxRetries - i)") auto

text \<open>\<open>rpcProviders\<close> is the number of HTTP providers; the WebSocket provider comes first.\<close>

definition getCurrentPriceFromReservesSafe ::
  "(nat \<Rightarrow> nat \<Rightarrow> (int \<times> int) option) \<Rightarrow> nat \<Rightarrow> bool \<Rightarrow> int" where
  "getCurrentPriceFromReservesSafe getReserves rpcProviders tokenIsToken1 =
     price_rounds getReserves (1 + rpcProviders) tokenIsToken1 0"

text \<open>The older \<^verbatim>\<open>getCurrentPriceFromReserves\<close> of \<^verbatim>\<open>src/new.ts\<close>: one call, no retry.\<close>

definition getCurrentPriceFromReserves :: "(int \<times> int) option \<Rightarrow> bool \<Rightarrow> int" where
  "getCurrentPriceFromReserves response tokenIsToken1 =
     (case response of
        None \<Rightarrow> 0
      | Some (reserve0, reserve1) \<Rightarrow>
          (let reserveWBNB = (if tokenIsToken1 then reserve0 else reserve1);
               reserveToken = (if tokenIsToken1 then reserve1 else reserve0)
           in if reserveToken = 0 then 0
              else (reserveWBNB * 1000000 * 10 ^ 18) sdiv reserveToken))"

section \<open>Broadcasting a signed transaction\<close>

text \<open>
  \<^verbatim>\<open>submitRawTx\<close> starts one submission per provider. Each submission awaits
  \<^verbatim>\<open>Promise.race([provider.broadcastTransaction(tx), timeout])\<close>; the outcome of that
  race is \<open>Returns (Some hash)\<close>, \<open>Returns None\<close> for a response without a hash, or
  \<open>Throws message\<close> (the provider's error, or \<open>Timeout\<close>). A submission never rejects:
  it resolves to one of the two records below.
\<close>

datatype submission = Accepted string nat | Failed string nat

definition submit_one :: "nat \<Rightarrow> string option outcome \<Rightarrow> submission" where
  "submit_one index race =
     (case race of
        Throws message \<Rightarrow> Failed message index
      | Returns None \<Rightarrow> Failed ''No transaction hash returned'' index
      | Returns (Some hash) \<Rightarrow>
          if hash = [] then Failed ''No transaction hash returned'' index
          else Accepted hash index)"

text \<open>The loop over \<open>results\<close>: the first record, in provider order, that has a hash.\<close>

fun first_success :: "submission list \<Rightarrow> string option" where
  "first_success [] = None"
| "first_success (Accepted hash index # rest) = (if hash \<noteq> [] then Some hash else first_success rest)"
| "first_success (Failed message index # rest) = first_success rest"

definition submissions :: "string option outcome list \<Rightarrow> submission list" where
  "submissions races = map (\<lambda>(index, race). submit_one index race) (enumerate 0 races)"

definition submitRawTx_settled :: "string option outcome list \<Rightarrow> string outcome" where
  "submitRawTx_settled races =
     (case first_success (submissions races) of
        Some txHash \<Rightarrow> Returns txHash
      | None \<Rightarrow> Throws ''All RPC endpoints failed to broadcast transaction'')"

text \<open>
  \<^verbatim>\<open>
  // Wait for first successful response
  const results = await Promise.allSettled(submissions);
  // Find first successful submission
  for (const result of results) {
    if (result.status === 'fulfilled' && result.value.success && result.value.hash) {
      const txHash = result.value.hash;
      // Let other submissions complete in background (don't await)
      Promise.allSettled(submissions).then(() => { ... });
      return txHash;
    }
  }
  throw new Error('All RPC endpoints failed to broadcast transaction');
  \<close>
  \<^verbatim>\<open>Promise.allSettled\<close> resumes once every submission has settled. An endpoint is
  \<open>None\<close> while its race is pending; the result is \<open>None\<close> while \<^verbatim>\<open>submitRawTx\<close> has
  not returned.
\<close>

definition submitRawTx :: "string option outcome option list \<Rightarrow> string outcome option" where
  "submitRawTx endpoints = map_option submitRawTx_settled (those endpoints)"

section \<open>Approval\<close>

definition MaxUint256 :: int where
  "MaxUint256 = 2 ^ 256 - 1"

text \<open>
  \<^verbatim>\<open>
  async function approveToken(token: string, amount: bigint): Promise<void> {
    const allowance = await tokenContract.allowance(wallet.address, ADDRESSES.ROUTER);
    if (allowance >= amount) { return; }
    const tx = await tokenContract.approve(ADDRESSES.ROUTER, ethers.MaxUint256);
    await tx.wait(1);
  }
  \<close>
  The result lists the amounts of the \<open>approve\<close> transactions sent to the router.
\<close>

record approve_calls =
  allowance_call :: "int outcome"
  approve_call :: "unit outcome"
  wait_call :: "unit outcome"

definition approveToken :: "approve_calls \<Rightarrow> int \<Rightarrow> int list \<times> unit outcome" where
  "approveToken chain amount =
     (case allowance_call chain of
        Throws message \<Rightarrow> ([], Throws message)
      | Returns allowance \<Rightarrow>
          if allowance \<ge> amount then ([], Returns ())
          else (case approve_call chain of
                  Throws message \<Rightarrow> ([MaxUint256], Throws message)
                | Returns tx \<Rightarrow>
                    (case wait_call chain of
                       Throws message \<Rightarrow> ([MaxUint256], Throws message)
                     | Returns receipt \<Rightarrow> ([MaxUint256], Returns ()))))"

section \<open>Token name filter\<close>

text \<open>
  The script \<^verbatim>\<open>src/src/types/index.ts\<close> reads the deny-list from the environment:
  \<^verbatim>\<open>
  const TOKEN_NAME_CONTAINS = process.env.TOKEN_NAME_CONTAINS?.trim() || '';
  const TOKEN_NAME_KEYWORDS = TOKEN_NAME_CONTAINS
    ? TOKEN_NAME_CONTAINS.split(',').map(k => k.trim()).filter(k => k.length > 0)
    : [];
  \<close>
  A JavaScript string is a list of code units, of any type \<open>'c\<close>. \<open>split\<close> and
  \<open>includes\<close> compare code units and are defined here. \<open>toLowerCase\<close> and \<open>trim\<close> are
  built into the language, with the Unicode tables behind them: they are arguments, and
  what is proved holds for whatever functions they are.
\<close>

text \<open>\<open>s.split(d)\<close> for a one-unit separator: never the empty list.\<close>

fun split_str :: "'c \<Rightarrow> 'c list \<Rightarrow> 'c list list" where
  "split_str d [] = [[]]"
| "split_str d (c # s) =
     (if c = d then [] # split_str d s
      else (case split_str d s of [] \<Rightarrow> [[c]] | x # xs \<Rightarrow> (c # x) # xs))"

text \<open>\<open>s.includes(t)\<close>: \<open>t\<close> occurs in \<open>s\<close> as a contiguous run of code units.\<close>

fun includes_str :: "'c list \<Rightarrow> 'c list \<Rightarrow> bool" where
  "includes_str [] t = (t = [])"
| "includes_str (c # s) t = (prefix t (c # s) \<or> includes_str s t)"

text \<open>\<open>value\<close> is \<open>process.env.TOKEN_NAME_CONTAINS\<close>, \<open>comma\<close> the code unit of the comma.\<close>

definition TOKEN_NAME_CONTAINS :: "('c list \<Rightarrow> 'c list) \<Rightarrow> 'c list option \<Rightarrow> 'c list" where
  "TOKEN_NAME_CONTAINS trim value =
     (case value of None \<Rightarrow> [] | Some v \<Rightarrow> (if trim v = [] then [] else trim v))"

definition TOKEN_NAME_KEYWORDS ::
  "('c list \<Rightarrow> 'c list) \<Rightarrow> 'c \<Rightarrow> 'c list option \<Rightarrow> 'c list list" where
  "TOKEN_NAME_KEYWORDS trim comma value =
     (if TOKEN_NAME_CONTAINS trim value \<noteq> []
      then filter (\<lambda>k. length k > 0)
             (map trim (split_str comma (TOKEN_NAME_CONTAINS trim value)))
      else [])"

text \<open>
  \<^verbatim>\<open>
  function shouldBuyToken(name: string): boolean {
    if (TOKEN_NAME_KEYWORDS.length === 0) { return true; }
    const nameLower = name.toLowerCase();
    const containsKeyword = TOKEN_NAME_KEYWORDS.some(keyword =>
      nameLower.includes(keyword.toLowerCase()));
    return !containsKeyword;
  }
  \<close>
  The module constant \<open>TOKEN_NAME_KEYWORDS\<close> is the second argument.
\<close>

definition shouldBuyToken :: "('c list \<Rightarrow> 'c list) \<Rightarrow> 'c list list \<Rightarrow> 'c list \<Rightarrow> bool" where
  "shouldBuyToken toLowerCase keywords name =
     (if length keywords = 0 then True
      else (let nameLower = toLowerCase name;
                containsKeyword =
                  list_ex (\<lambda>keyword. includes_str nameLower (toLowerCase keyword)) keywords
            in \<not> containsKeyword))"

text \<open>
  Where a concrete run needs a lower-casing function, this one is used. It is what
  \<open>toLowerCase\<close> does to a string of ASCII characters: \<open>A\<close>..\<open>Z\<close> become \<open>a\<close>..\<open>z\<close>
  and nothing else changes. It is not the model of \<open>toLowerCase\<close>, and is applied to
  ASCII strings only.
\<close>

definition ascii_lower :: "string \<Rightarrow> string" where
  "ascii_lower s =
     map (\<lambda>c. let n = (of_char c :: nat) in if 65 \<le> n \<and> n \<le> 90 then char_of (n + 32) else c) s"

section \<open>Buying\<close>

definition gwei :: int where
  "gwei = 10 ^ 9"

text \<open>
  The gas price of \<^verbatim>\<open>executeSwap\<close>. \<open>feeData\<close> is \<open>feeData.gasPrice\<close>, which may be
  \<open>null\<close>; \<^verbatim>\<open>feeData.gasPrice || ethers.parseUnits('3', 'gwei')\<close> also replaces \<open>0n\<close>.
\<close>

definition competitive_gasPrice :: "int option \<Rightarrow> int" where
  "competitive_gasPrice feeData =
     (let networkGas = (case feeData of
                          None \<Rightarrow> 3 * gwei
                        | Some gasPrice \<Rightarrow> if gasPrice = 0 then 3 * gwei else gasPrice)
      in (networkGas * 150) sdiv 100)"

definition default_gasPrice :: int where
  "default_gasPrice = 5 * 10 ^ 7"

text \<open>
  \<^verbatim>\<open>src/src/config/index.ts\<close> reads \<^verbatim>\<open>maxGasPrice: process.env.MAX_GAS_PRICE || '10'\<close>,
  in gwei. This is the value when the key is not set.
\<close>

definition maxGasPrice_default :: int where
  "maxGasPrice_default = 10 * gwei"

text \<open>
  The awaited calls of \<^verbatim>\<open>executeSwap\<close>, in the order of the source. \<open>broadcast_races\<close>
  are the settled races of \<^verbatim>\<open>submitRawTx\<close>; \<open>resync_call\<close> is the
  \<^verbatim>\<open>getTransactionCount\<close> of the \<open>catch\<close> block. The transaction always has
  \<^verbatim>\<open>amountOutMin = 0\<close>, gas limit 300000 and chain id 56; the deadline is not modelled.
\<close>

record swap_calls =
  parseEther_call :: "int outcome"
  getFeeData_call :: "int option outcome"
  populate_call :: "unit outcome"
  sign_call :: "unit outcome"
  broadcast_races :: "string option outcome list"
  resync_call :: "nat outcome"

record swap_tx =
  tx_value :: int
  tx_gasPrice :: int
  tx_nonce :: nat

datatype swap_result = SwapSubmitted string swap_tx | SwapFailed string

definition swap_gasPrice :: "swap_calls \<Rightarrow> bool \<Rightarrow> int outcome" where
  "swap_gasPrice chain competitiveGas =
     (if competitiveGas then
        (case getFeeData_call chain of
           Throws message \<Rightarrow> Throws message
         | Returns feeData \<Rightarrow> Returns (competitive_gasPrice feeData))
      else Returns default_gasPrice)"

text \<open>The \<open>try\<close> block of \<^verbatim>\<open>executeSwap\<close>, up to the hash that \<^verbatim>\<open>submitRawTx\<close> returns.\<close>

definition swap_try :: "swap_calls \<Rightarrow> bool \<Rightarrow> nat \<Rightarrow> (string \<times> swap_tx) outcome" where
  "swap_try chain competitiveGas currentNonce =
     (case parseEther_call chain of
        Throws message \<Rightarrow> Throws message
      | Returns amountIn \<Rightarrow>
     (case swap_gasPrice chain competitiveGas of
        Throws message \<Rightarrow> Throws message
      | Returns gasPrice \<Rightarrow>
     (case populate_call chain of
        Throws message \<Rightarrow> Throws message
      | Returns txRequest \<Rightarrow>
     (case sign_call chain of
        Throws message \<Rightarrow> Throws message
      | Returns signedTx \<Rightarrow>
     (case submitRawTx_settled (broadcast_races chain) of
        Throws message \<Rightarrow> Throws message
      | Returns txHash \<Rightarrow>
          Returns (txHash, \<lparr>tx_value = amountIn, tx_gasPrice = gasPrice,
                            tx_nonce = currentNonce\<rparr>))))))"

text \<open>
  The result and the new value of \<open>currentNonce\<close>. The nonce is incremented after a
  successful broadcast only; an error whose message mentions the nonce resynchronises
  it, and a failure of that call leaves \<^verbatim>\<open>executeSwap\<close> itself rejected. A run of
  \<^verbatim>\<open>executeSwap\<close> is one step here: the timer of \<^verbatim>\<open>main\<close> that raises \<open>currentNonce\<close>
  to the pending count every eight seconds is not interleaved with it.
\<close>

definition executeSwap :: "swap_calls \<Rightarrow> bool \<Rightarrow> nat \<Rightarrow> swap_result outcome \<times> nat" where
  "executeSwap chain competitiveGas currentNonce =
     (case swap_try chain competitiveGas currentNonce of
        Returns (txHash, tx) \<Rightarrow> (Returns (SwapSubmitted txHash tx), currentNonce + 1)
      | Throws message \<Rightarrow>
          if includes_str message ''nonce'' \<or> includes_str message ''already known'' then
            (case resync_call chain of
               Throws resync_message \<Rightarrow> (Throws resync_message, currentNonce)
             | Returns fromChain \<Rightarrow> (Returns (SwapFailed message), fromChain))
          else (Returns (SwapFailed message), currentNonce))"

section \<open>Start of the process\<close>

text \<open>
  The top level of \<^verbatim>\<open>src/src/types/index.ts\<close> reads the environment, a partial map
  from keys to strings, and builds the chain client:
  \<^verbatim>\<open>
  const sendBNB = String(process.env.SEND_BNB);
  const SNIPER_CONTRACT_ADDRESS = process.env.SNIPER_CONTRACT_ADDRESS;
  if (!SNIPER_CONTRACT_ADDRESS || isAddress(SNIPER_CONTRACT_ADDRESS, false) === false) {
    throw new Error('SNIPER_CONTRACT_ADDRESS not set in .env file! Deploy the contract first.');
  }
  const PROVIDER_URL = process.env.WS_PROVIDER_URL!;
  const RPC_PROVIDER_URL = process.env.RPC_PROVIDER_URL!;
  const BSC_RPC_ENDPOINTS = [ RPC_PROVIDER_URL ];
  const PRIVATE_KEY = process.env.PRIVATE_KEY;
  if (!PRIVATE_KEY) { throw new Error('PRIVATE_KEY not set in .env file!'); }
  const provider = new ethers.WebSocketProvider(PROVIDER_URL);
  const wallet = new ethers.Wallet(PRIVATE_KEY!, provider);
  const rpcProviders = BSC_RPC_ENDPOINTS.map(url => new ethers.JsonRpcProvider(url));
  \<close>
  \<open>String(undefined)\<close> is the nine-letter string \<open>undefined\<close>. \<open>isAddress\<close> and the three
  constructors belong to imported packages: whether a constructor returns or throws, for
  the URL or key it is given, is an argument. An exception at the top level ends the
  process. The token filter and the minimum liquidity are read in between and cannot
  throw. \<^verbatim>\<open>main().catch(console.error)\<close> runs last; a failure there is logged, not thrown.
\<close>

type_synonym env = "string \<rightharpoonup> string"

definition sendBNB :: "env \<Rightarrow> string" where
  "sendBNB env = (case env ''SEND_BNB'' of None \<Rightarrow> ''undefined'' | Some v \<Rightarrow> v)"




section \<open>The pair-creation handler and the sniping lock\<close>

text \<open>
  The lock is the pair of module variables \<open>isSnipingActive\<close> and
  \<open>currentTargetToken\<close>. Handlers of \<^verbatim>\<open>PairCreated\<close> events run on one event loop: a
  handler runs without interruption from one \<^verbatim>\<open>await\<close> to the next, and between two
  such segments the segments of other handlers may run. A handler is therefore a
  program counter that names the \<^verbatim>\<open>await\<close> it is suspended at, and a step of the
  system resumes one handler with the outcome of the call it waits for and runs it to
  its next \<^verbatim>\<open>await\<close> or to its end.

  The liquidity figures are JavaScript numbers. \<open>etherNumber w\<close> stands for
  \<^verbatim>\<open>Number(ethers.formatEther(w))\<close>, a finite double and so a rational; doubling it is
  exact. \<open>MIN_LIQUIDITY_BNB\<close> is the parsed minimum, 0 when the key is not set; a value
  that does not parse gives \<open>NaN\<close>, which fails the test \<open>MIN_LIQUIDITY_BNB > 0\<close> as 0
  does. \<open>toLowerCase\<close> is the built-in function of strings, an argument as in the token
  filter.
\<close>

record settings =
  MIN_LIQUIDITY_BNB :: rat
  etherNumber :: "int \<Rightarrow> rat"
  name_keywords :: "string list"
  toLowerCase :: "string \<Rightarrow> string"
  spend :: string
  rpcProviders_length :: nat

definition WBNB :: string where
  "WBNB = ''0xbb4CdB9CBd36B01bD1cBaEBF2De08d9173bc095c''"

datatype handler_pc =
    AwaitReserves
  | AwaitTokenInfo
  | AwaitSleep
  | AwaitSwap
  | ProcessExit
  | Filtered
  | Busy
  | Finished

record handler =
  pc :: handler_pc
  token0 :: string
  token1 :: string

definition newToken :: "settings \<Rightarrow> handler \<Rightarrow> string" where
  "newToken cfg h =
     (if toLowerCase cfg (token0 h) = toLowerCase cfg WBNB then token1 h else token0 h)"

record sniping_lock =
  isSnipingActive :: bool
  currentTargetToken :: "string option"

record system = sniping_lock +
  exited :: "nat option"
  handlers :: "handler list"

definition fresh :: system where
  "fresh = \<lparr>isSnipingActive = False, currentTargetToken = None, exited = None, handlers = []\<rparr>"

text \<open>
  What a suspended handler is resumed with: the reserves of the pair (or the exception
  of \<^verbatim>\<open>getReserves\<close>), the name and symbol from \<^verbatim>\<open>getTokenInfo\<close> (\<open>None\<close> for its
  \<open>null\<close>), the 80 ms timer, or the end of the position's lifecycle, which is every
  path after the lock that sets \<open>isSnipingActive = false\<close>.
\<close>

datatype handler_input =
    ReservesResult "(int \<times> int) outcome"
  | TokenInfoResult "(string \<times> string) option"
  | TimerFired
  | LifecycleEnded

datatype action = PairCreated string string | Resume nat handler_input

text \<open>The synchronous start of the handler: only pairs with WBNB go on to \<^verbatim>\<open>getReserves\<close>.\<close>

definition on_PairCreated :: "settings \<Rightarrow> string \<Rightarrow> string \<Rightarrow> handler" where
  "on_PairCreated cfg t0 t1 =
     \<lparr>pc = (if toLowerCase cfg t0 \<noteq> toLowerCase cfg WBNB
                \<and> toLowerCase cfg t1 \<noteq> toLowerCase cfg WBNB
             then Filtered else AwaitReserves),
      token0 = t0, token1 = t1\<rparr>"

text \<open>
  One segment of handler \<open>h\<close>, from the \<^verbatim>\<open>await\<close> it is suspended at. The result is the
  new lock, the exit code if the process exits, and the handler's new program counter.
  An input that does not answer the pending \<^verbatim>\<open>await\<close> changes nothing.
\<close>

definition after_reserves :: "settings \<Rightarrow> system \<Rightarrow> handler \<Rightarrow> (int \<times> int) outcome \<Rightarrow> handler_pc" where
  "after_reserves cfg s h result =
     (case result of
        Throws message \<Rightarrow> Filtered
      | Returns (r0, r1) \<Rightarrow>
          if r0 = 0 \<or> r1 = 0 then Filtered
          else if MIN_LIQUIDITY_BNB cfg > 0 \<and>
                  etherNumber cfg
                    (if toLowerCase cfg (token0 h) = toLowerCase cfg WBNB then r0 else r1) * 2
                    < MIN_LIQUIDITY_BNB cfg
          then Filtered
          else if isSnipingActive s then Busy
          else AwaitTokenInfo)"

definition after_tokenInfo :: "settings \<Rightarrow> system \<Rightarrow> (string \<times> string) option \<Rightarrow> handler_pc" where
  "after_tokenInfo cfg s tokenInfo =
     (case tokenInfo of
        None \<Rightarrow> Filtered
      | Some (name, symbol) \<Rightarrow>
          if \<not> shouldBuyToken (toLowerCase cfg) (name_keywords cfg) name then Filtered
          else if isSnipingActive s then Busy
          else AwaitSleep)"

definition set_pc :: "nat \<Rightarrow> handler_pc \<Rightarrow> system \<Rightarrow> system" where
  "set_pc i p s = s\<lparr>handlers := (handlers s)[i := (handlers s ! i)\<lparr>pc := p\<rparr>]\<rparr>"

text \<open>
  \<^verbatim>\<open>
  await new Promise(r => setTimeout(r, 80));
  if (isSnipingActive) { return; }
  isSnipingActive = true;
  currentTargetToken = newToken;
  if (!sendBNB) { console.log("Missed SEND_BNB in env!"); process.exit(1); }
  const result = await executeSwap(newToken, sendBNB, 3, false);
  \<close>
\<close>

definition after_sleep :: "settings \<Rightarrow> nat \<Rightarrow> system \<Rightarrow> system" where
  "after_sleep cfg i s =
     (if isSnipingActive s then set_pc i Busy s
      else (let locked = s\<lparr>isSnipingActive := True,
                            currentTargetToken := Some (newToken cfg (handlers s ! i))\<rparr>
            in if spend cfg = [] then (set_pc i ProcessExit locked)\<lparr>exited := Some 1\<rparr>
               else set_pc i AwaitSwap locked))"

definition unlock :: "'a sniping_lock_scheme \<Rightarrow> 'a sniping_lock_scheme" where
  "unlock s = s\<lparr>isSnipingActive := False, currentTargetToken := None\<rparr>"

definition resume :: "settings \<Rightarrow> nat \<Rightarrow> handler_input \<Rightarrow> system \<Rightarrow> system" where
  "resume cfg i input s =
     (if i < length (handlers s) then
        (case (pc (handlers s ! i), input) of
           (AwaitReserves, ReservesResult result) \<Rightarrow>
             set_pc i (after_reserves cfg s (handlers s ! i) result) s
         | (AwaitTokenInfo, TokenInfoResult tokenInfo) \<Rightarrow>
             set_pc i (after_tokenInfo cfg s tokenInfo) s
         | (AwaitSleep, TimerFired) \<Rightarrow> after_sleep cfg i s
         | (AwaitSwap, LifecycleEnded) \<Rightarrow> set_pc i Finished (unlock s)
         | _ \<Rightarrow> s)
      else s)"

definition system_step :: "settings \<Rightarrow> action \<Rightarrow> system \<Rightarrow> system" where
  "system_step cfg a s =
     (if exited s \<noteq> None then s
      else (case a of
              PairCreated t0 t1 \<Rightarrow> s\<lparr>handlers := handlers s @ [on_PairCreated cfg t0 t1]\<rparr>
            | Resume i input \<Rightarrow> resume cfg i input s))"

fun system_run :: "settings \<Rightarrow> action list \<Rightarrow> system \<Rightarrow> system" where
  "system_run cfg [] s = s"
| "system_run cfg (a # as) s = system_run cfg as (system_step cfg a s)"

text \<open>The handlers that have taken the lock, and those still before one of its checks.\<close>

definition holding :: "handler \<Rightarrow> bool" where
  "holding h = (pc h = AwaitSwap \<or> pc h = ProcessExit)"

definition pending :: "handler \<Rightarrow> bool" where
  "pending h = (pc h = AwaitReserves \<or> pc h = AwaitTokenInfo \<or> pc h = AwaitSleep)"

definition holders :: "system \<Rightarrow> nat" where
  "holders s = length (filter holding (handlers s))"

definition rejected :: "system \<Rightarrow> nat" where
  "rejected s = length (filter (\<lambda>h. pc h = Busy) (handlers s))"

definition is_release :: "action \<Rightarrow> bool" where
  "is_release a = (case a of Resume i LifecycleEnded \<Rightarrow> True | _ \<Rightarrow> False)"

text \<open>While the lock is taken exactly one handler holds it; while it is free none does.\<close>

definition lock_inv :: "system \<Rightarrow> bool" where
  "lock_inv s = (holders s = (if isSnipingActive s then 1 else 0))"

text \<open>Without a release a handler that was turned away stays a proof that the lock is taken.\<close>

definition busy_inv :: "system \<Rightarrow> bool" where
  "busy_inv s = (0 < rejected s \<longrightarrow> isSnipingActive s)"

text \<open>No handler has ended its lifecycle yet.\<close>

definition no_finished :: "system \<Rightarrow> bool" where
  "no_finished s = (\<forall>h \<in> set (handlers s). pc h \<noteq> Finished)"

section \<open>The sell monitor\<close>

text \<open>
  \<^verbatim>\<open>scheduleSellAfterBuy\<close> waits for the receipt of the buy, reads the balance and the
  entry price, and then starts a timer whose callback, the tick, runs every second. The
  variables of its closure are the position, which never changes, and \<open>sold\<close>,
  \<open>highestPriceSeen\<close> and the timer itself, which the ticks share with the lock and the
  nonce counter.
\<close>

record position =
  tokenIsToken1 :: bool
  tokenBalance :: int
  initialPrice :: int
  initialLiquidityBNB :: rat

definition targetPrice :: "position \<Rightarrow> int" where
  "targetPrice p = (initialPrice p * 105) sdiv 100"

definition liquidity_reason :: string where
  "liquidity_reason = ''LIQUIDITY DROP BELOW MINIMUM - Possible rug pull''"

definition profit_reason :: string where
  "profit_reason = ''TARGET HIT! Selling at +10% or more''"

text \<open>
  A tick is suspended at one of its \<^verbatim>\<open>await\<close>s. Inside \<^verbatim>\<open>executeSell\<close> it remembers
  which of the two calls of the tick brought it there, since the call in the liquidity
  check sits in a \<open>try\<close> block and the call in the profit check does not, and the local
  constant \<open>nonce\<close> once it is read. The three awaits of \<^verbatim>\<open>approveToken\<close> touch no
  shared variable and are one step.
\<close>

datatype caller = LiquidityCheck | ProfitCheck

datatype tick_pc =
    AwaitLiquidity
  | AwaitPrice
  | AwaitApprove caller
  | AwaitNonce caller
  | AwaitPopulate caller nat
  | AwaitSign caller nat
  | AwaitSubmit caller nat
  | TickDone
  | TickCrashed

record sell_tx =
  sell_amountIn :: int
  sell_nonce :: nat

text \<open>
  \<open>interval\<close> says that the timer is armed. \<open>reasons\<close> are the reasons of the
  \<open>Selling immediately\<close> lines written so far, \<open>approvals\<close> the amounts of the approvals
  sent, and \<open>broadcasts\<close> the sell transactions handed to \<^verbatim>\<open>submitRawTx\<close>, each with
  \<^verbatim>\<open>amountOutMin = 0\<close>.
\<close>

record monitor = sniping_lock +
  currentNonce :: nat
  sold :: bool
  interval :: bool
  highestPriceSeen :: int
  ticks :: "tick_pc list"
  reasons :: "string list"
  approvals :: "int list"
  broadcasts :: "sell_tx list"

datatype tick_input =
    ReservesCall "(int \<times> int) outcome"
  | PriceCalls "nat \<Rightarrow> nat \<Rightarrow> (int \<times> int) option"
  | ApproveCalls approve_calls
  | NonceCall "nat outcome"
  | PopulateCall "unit outcome"
  | SignCall "unit outcome"
  | BroadcastRaces "string option outcome list"

datatype monitor_action = Fire | Settle nat tick_input

definition set_tick :: "nat \<Rightarrow> tick_pc \<Rightarrow> monitor \<Rightarrow> monitor" where
  "set_tick i p m = m\<lparr>ticks := (ticks m)[i := p]\<rparr>"

text \<open>
  \<^verbatim>\<open>
  async function executeSell(reason: string) {
    if (sold) return;
    clearInterval(interval);
    sold = true;
    console.log(`... ${reason} - Selling immediately...`);
    await approveToken(token, tokenBalance);
  \<close>
  Both calls of the tick end the tick when \<^verbatim>\<open>executeSell\<close> returns.
\<close>

definition executeSell :: "string \<Rightarrow> caller \<Rightarrow> nat \<Rightarrow> monitor \<Rightarrow> monitor" where
  "executeSell reason c i m =
     (if sold m then set_tick i TickDone m
      else set_tick i (AwaitApprove c)
             (m\<lparr>interval := False, sold := True, reasons := reasons m @ [reason]\<rparr>))"

text \<open>The \<open>catch\<close> block of \<^verbatim>\<open>executeSell\<close>, after which the call returns.\<close>

definition sell_failed :: "nat \<Rightarrow> monitor \<Rightarrow> monitor" where
  "sell_failed i m = set_tick i TickDone ((unlock m)\<lparr>sold := True\<rparr>)"

definition sell_succeeded :: "nat \<Rightarrow> monitor \<Rightarrow> monitor" where
  "sell_succeeded i m = set_tick i TickDone (unlock (m\<lparr>currentNonce := currentNonce m + 1\<rparr>))"

text \<open>
  Tick \<open>i\<close>, suspended at one of its awaits, resumes with the outcome of the call it
  waits for and runs to its next \<^verbatim>\<open>await\<close> or to its end. An exception of \<^verbatim>\<open>approveToken\<close> leaves
  \<^verbatim>\<open>executeSell\<close>: the \<open>try\<close> block of the liquidity check catches it and the tick goes
  on to the price; after the profit check nothing catches it.
\<close>

fun resume_tick ::
  "settings \<Rightarrow> position \<Rightarrow> nat \<Rightarrow> tick_pc \<Rightarrow> tick_input \<Rightarrow> monitor \<Rightarrow> monitor" where
  "resume_tick cfg p i AwaitLiquidity (ReservesCall result) m =
     (case result of
        Throws message \<Rightarrow> set_tick i AwaitPrice m
      | Returns (r0, r1) \<Rightarrow>
          (let wbnbReserve = (if tokenIsToken1 p then r0 else r1);
               currentLiquidityBNB = etherNumber cfg wbnbReserve * 2
           in if currentLiquidityBNB < MIN_LIQUIDITY_BNB cfg
              then executeSell liquidity_reason LiquidityCheck i m
              else set_tick i AwaitPrice m))"
| "resume_tick cfg p i AwaitPrice (PriceCalls getReserves) m =
     (let currentPrice = getCurrentPriceFromReservesSafe getReserves (rpcProviders_length cfg)
                           (tokenIsToken1 p)
      in if currentPrice = 0 then set_tick i TickDone m
         else (let m' = (if currentPrice > highestPriceSeen m
                         then m\<lparr>highestPriceSeen := currentPrice\<rparr> else m)
               in if currentPrice \<ge> targetPrice p
                  then executeSell profit_reason ProfitCheck i m'
                  else set_tick i TickDone m'))"
| "resume_tick cfg p i (AwaitApprove c) (ApproveCalls chain) m =
     (case approveToken chain (tokenBalance p) of
        (sent, Returns approved) \<Rightarrow> set_tick i (AwaitNonce c) (m\<lparr>approvals := approvals m @ sent\<rparr>)
      | (sent, Throws message) \<Rightarrow>
          set_tick i (case c of LiquidityCheck \<Rightarrow> AwaitPrice | ProfitCheck \<Rightarrow> TickCrashed)
            (m\<lparr>approvals := approvals m @ sent\<rparr>))"
| "resume_tick cfg p i (AwaitNonce c) (NonceCall result) m =
     (case result of
        Throws message \<Rightarrow> sell_failed i m
      | Returns fromChain \<Rightarrow>
          set_tick i (AwaitPopulate c fromChain) (m\<lparr>currentNonce := fromChain\<rparr>))"
| "resume_tick cfg p i (AwaitPopulate c nonce) (PopulateCall result) m =
     (case result of
        Throws message \<Rightarrow> sell_failed i m
      | Returns txReq \<Rightarrow> set_tick i (AwaitSign c nonce) m)"
| "resume_tick cfg p i (AwaitSign c nonce) (SignCall result) m =
     (case result of
        Throws message \<Rightarrow> sell_failed i m
      | Returns signed \<Rightarrow>
          set_tick i (AwaitSubmit c nonce)
            (m\<lparr>broadcasts := broadcasts m @
                 [\<lparr>sell_amountIn = tokenBalance p, sell_nonce = nonce\<rparr>]\<rparr>))"
| "resume_tick cfg p i (AwaitSubmit c nonce) (BroadcastRaces races) m =
     (case submitRawTx_settled races of
        Throws message \<Rightarrow> sell_failed i m
      | Returns sellTxHash \<Rightarrow> sell_succeeded i m)"
| "resume_tick cfg p i suspended input m = m"

text \<open>
  The timer fires while it is armed and starts a tick, which runs to its first
  \<^verbatim>\<open>await\<close>: \<^verbatim>\<open>if (sold) return;\<close>, then the liquidity check when it is configured and
  the initial liquidity is known, else the price.
\<close>

definition fire :: "settings \<Rightarrow> position \<Rightarrow> monitor \<Rightarrow> monitor" where
  "fire cfg p m =
     (if \<not> interval m then m
      else if sold m then m\<lparr>ticks := ticks m @ [TickDone]\<rparr>
      else if MIN_LIQUIDITY_BNB cfg > 0 \<and> initialLiquidityBNB p > 0
      then m\<lparr>ticks := ticks m @ [AwaitLiquidity]\<rparr>
      else m\<lparr>ticks := ticks m @ [AwaitPrice]\<rparr>)"

definition monitor_step :: "settings \<Rightarrow> position \<Rightarrow> monitor_action \<Rightarrow> monitor \<Rightarrow> monitor" where
  "monitor_step cfg p a m =
     (case a of
        Fire \<Rightarrow> fire cfg p m
      | Settle i input \<Rightarrow>
          if i < length (ticks m) then resume_tick cfg p i (ticks m ! i) input m else m)"

fun monitor_run ::
  "settings \<Rightarrow> position \<Rightarrow> monitor_action list \<Rightarrow> monitor \<Rightarrow> monitor" where
  "monitor_run cfg p [] m = m"
| "monitor_run cfg p (a # as) m = monitor_run cfg p as (monitor_step cfg p a m)"

text \<open>The state in which \<^verbatim>\<open>scheduleSellAfterBuy\<close> returns, the timer just started.\<close>

definition start_monitor :: "string \<Rightarrow> nat \<Rightarrow> position \<Rightarrow> monitor" where
  "start_monitor token nonce p =
     \<lparr>isSnipingActive = True, currentTargetToken = Some token, currentNonce = nonce,
      sold = False, interval = True, highestPriceSeen = initialPrice p, ticks = [],
      reasons = [], approvals = [], broadcasts = []\<rparr>"

text \<open>
  The ticks inside \<^verbatim>\<open>executeSell\<close> that have not yet called \<^verbatim>\<open>submitRawTx\<close>, those
  that wait for its result, and the invariant of the monitor: before \<open>sold\<close> is set the
  timer is armed and no tick is inside \<^verbatim>\<open>executeSell\<close>; afterwards the timer is
  cancelled, one reason has been written, and there is either one tick on its way to the
  broadcast or at most one broadcast.
\<close>

definition selling :: "tick_pc \<Rightarrow> bool" where
  "selling suspended = (case suspended of
                   AwaitApprove c \<Rightarrow> True
                 | AwaitNonce c \<Rightarrow> True
                 | AwaitPopulate c nonce \<Rightarrow> True
                 | AwaitSign c nonce \<Rightarrow> True
                 | _ \<Rightarrow> False)"

definition submitting :: "tick_pc \<Rightarrow> bool" where
  "submitting suspended = (case suspended of AwaitSubmit c nonce \<Rightarrow> True | _ \<Rightarrow> False)"

definition sellers :: "monitor \<Rightarrow> nat" where
  "sellers m = length (filter selling (ticks m))"

definition submitters :: "monitor \<Rightarrow> nat" where
  "submitters m = length (filter submitting (ticks m))"

definition monitor_inv :: "monitor \<Rightarrow> bool" where
  "monitor_inv m =
     ((\<not> sold m \<longrightarrow> interval m \<and> sellers m = 0 \<and> submitters m = 0
                       \<and> broadcasts m = [] \<and> reasons m = [])
      \<and> (sold m \<longrightarrow> \<not> interval m \<and> sellers m + length (broadcasts m) \<le> 1
                     \<and> length (reasons m) \<le> 1))"

section \<open>The lifecycle of a position\<close>

text \<open>
  The part of \<^verbatim>\<open>scheduleSellAfterBuy\<close> before the timer is started. \<open>receipt_call\<close> is
  \<^verbatim>\<open>provider.waitForTransaction(buyTxHash, 1, 90_000)\<close>: \<open>null\<close> or the status of the
  receipt. On each early return the function has unlocked the lock itself; when one of
  its awaits throws, its promise is rejected and the lock is as it was.
\<close>

record setup_calls =
  receipt_call :: "int option outcome"
  balance_call :: "int outcome"
  price_calls :: "nat \<Rightarrow> nat \<Rightarrow> (int \<times> int) option"
  liquidity_call :: "(int \<times> int) outcome"

datatype setup_result = Unlocked | Started position

definition scheduleSellAfterBuy :: "settings \<Rightarrow> setup_calls \<Rightarrow> bool \<Rightarrow> setup_result outcome" where
  "scheduleSellAfterBuy cfg chain isToken1 =
     (case receipt_call chain of
        Throws message \<Rightarrow> Throws message
      | Returns receipt \<Rightarrow>
          if receipt \<noteq> Some 1 then Returns Unlocked
          else (case balance_call chain of
                  Throws message \<Rightarrow> Throws message
                | Returns balance \<Rightarrow>
                    if balance \<le> 0 then Returns Unlocked
                    else (let price = getCurrentPriceFromReservesSafe (price_calls chain)
                                        (rpcProviders_length cfg) isToken1
                          in if price = 0 then Returns Unlocked
                             else (let liquidity =
                                     (if MIN_LIQUIDITY_BNB cfg > 0 then
                                        (case liquidity_call chain of
                                           Throws message \<Rightarrow> 0
                                         | Returns (r0, r1) \<Rightarrow>
                                             etherNumber cfg (if isToken1 then r0 else r1) * 2)
                                      else 0)
                                   in Returns (Started \<lparr>tokenIsToken1 = isToken1,
                                                 tokenBalance = balance, initialPrice = price,
                                                 initialLiquidityBNB = liquidity\<rparr>)))))"

text \<open>
  The handler from the lock on:
  \<^verbatim>\<open>
  const result = await executeSwap(newToken, sendBNB, 3, false);
  if (result.success && result.txHash) {
    scheduleSellAfterBuy(newToken, result.txHash, pair, tokenIsToken1).catch(err => {
      isSnipingActive = false; currentTargetToken = null; });
  } else {
    isSnipingActive = false; currentTargetToken = null;
  }
  \<close>
  The lifecycle has either ended, with the lock as given, or the monitor runs.
\<close>

datatype lifecycle = Ended sniping_lock | Monitoring position monitor

definition after_lock ::
  "settings \<Rightarrow> swap_calls \<Rightarrow> setup_calls \<Rightarrow> handler \<Rightarrow> nat \<Rightarrow> lifecycle" where
  "after_lock cfg buy chain h nonce =
     (let locked = \<lparr>isSnipingActive = True, currentTargetToken = Some (newToken cfg h)\<rparr>
      in case executeSwap buy False nonce of
           (Throws message, nonce') \<Rightarrow> Ended locked
         | (Returns (SwapFailed message), nonce') \<Rightarrow> Ended (unlock locked)
         | (Returns (SwapSubmitted txHash tx), nonce') \<Rightarrow>
             if txHash = [] then Ended (unlock locked)
             else (case scheduleSellAfterBuy cfg chain
                          (toLowerCase cfg (token0 h) = toLowerCase cfg WBNB) of
                     Throws message \<Rightarrow> Ended (unlock locked)
                   | Returns Unlocked \<Rightarrow> Ended (unlock locked)
                   | Returns (Started p) \<Rightarrow>
                       Monitoring p (start_monitor (newToken cfg h) nonce' p)))"

text \<open>An action that is not a resumption of tick \<open>i\<close>: the timer, or another tick.\<close>

definition not_for :: "nat \<Rightarrow> monitor_action \<Rightarrow> bool" where
  "not_for i a = (case a of Fire \<Rightarrow> True | Settle j input \<Rightarrow> j \<noteq> i)"

text \<open>The states that a schedule passes through, from the first to the last.\<close>

fun monitor_trace ::
  "settings \<Rightarrow> position \<Rightarrow> monitor_action list \<Rightarrow> monitor \<Rightarrow> monitor list" where
  "monitor_trace cfg p [] m = [m]"
| "monitor_trace cfg p (a # as) m = m # monitor_trace cfg p as (monitor_step cfg p a m)"

text \<open>
  A sale for the liquidity reason is under way: tick \<open>i\<close> is suspended at \<open>t\<close> and the
  transactions handed to the broadcaster so far are \<open>sent\<close>.
\<close>

definition sale_stage :: "nat \<Rightarrow> tick_pc \<Rightarrow> sell_tx list \<Rightarrow> monitor \<Rightarrow> bool" where
  "sale_stage i t sent m =
     (monitor_inv m \<and> sold m \<and> i < length (ticks m) \<and> ticks m ! i = t
      \<and> broadcasts m = sent \<and> reasons m = [liquidity_reason])"

text \<open>Nothing is left to run: the timer is cancelled and every tick has ended.\<close>

definition quiescent :: "monitor \<Rightarrow> bool" where
  "quiescent m = (\<not> interval m \<and> list_all (\<lambda>t. t = TickDone \<or> t = TickCrashed) (ticks m))"



section \<open>Properties of the token name filter\<close>





lemma TOKEN_NAME_KEYWORDS_Moon_Pepe:
  assumes "trim ''Moon,Pepe'' = ''Moon,Pepe''" "trim ''Moon'' = ''Moon''" "trim ''Pepe'' = ''Pepe''"
  shows "TOKEN_NAME_KEYWORDS trim CHR '','' (Some ''Moon,Pepe'') = [''Moon'', ''Pepe'']"
  using assms by (simp add: TOKEN_NAME_KEYWORDS_def TOKEN_NAME_CONTAINS_def)





section \<open>Properties of the price computation\<close>

lemma try_providers_none:
  "(\<forall>r \<in> set rs. price_from_reserves t r = None) \<Longrightarrow> try_providers t rs = None"
  by (induction rs) auto

lemma try_providers_first:
  "j < length rs \<Longrightarrow> price_from_reserves t (rs ! j) = Some p \<Longrightarrow>
   (\<forall>j' < j. price_from_reserves t (rs ! j') = None) \<Longrightarrow> try_providers t rs = Some p"
proof (induction rs arbitrary: j)
  case Nil
  then show ?case by simp
next
  case (Cons r rs)
  show ?case
  proof (cases j)
    case 0
    with Cons.prems show ?thesis by simp
  next
    case (Suc k)
    with Cons.prems have "price_from_reserves t r = None" by auto
    moreover have "\<forall>j' < k. price_from_reserves t (rs ! j') = None"
    proof (intro allI impI)
      fix j' assume "j' < k"
      then have "Suc j' < j" using Suc by simp
      with Cons.prems(3) have "price_from_reserves t ((r # rs) ! Suc j') = None" by blast
      then show "price_from_reserves t (rs ! j') = None" by simp
    qed
    then have "try_providers t rs = Some p"
      using Cons.IH [of k] Cons.prems Suc by auto
    ultimately show ?thesis by simp
  qed
qed

lemma price_rounds_exhausted:
  "(\<forall>i' j'. i0 \<le> i' \<and> i' < maxRetries \<and> j' < n \<longrightarrow> price_from_reserves t (g i' j') = None) \<Longrightarrow>
   price_rounds g n t i0 = 0"
proof (induction g n t i0 rule: price_rounds.induct)
  case (1 g n t i)
  show ?case
  proof (cases "i < maxRetries")
    case False
    then show ?thesis by (subst price_rounds.simps) simp
  next
    case True
    have none: "try_providers t (map (g i) [0..<n]) = None"
      using "1.prems" True by (intro try_providers_none) auto
    have "price_rounds g n t (i + 1) = 0"
      using "1.IH" [OF True none] "1.prems" by auto
    with True none show ?thesis by (subst price_rounds.simps) simp
  qed
qed

lemma price_rounds_first:
  "i0 \<le> i \<Longrightarrow> i < maxRetries \<Longrightarrow> j < n \<Longrightarrow> price_from_reserves t (g i j) = Some p \<Longrightarrow>
   (\<forall>i' j'. i0 \<le> i' \<and> i' < maxRetries \<and> j' < n \<and> (i' < i \<or> (i' = i \<and> j' < j))
       \<longrightarrow> price_from_reserves t (g i' j') = None) \<Longrightarrow>
   price_rounds g n t i0 = p"
proof (induction g n t i0 rule: price_rounds.induct)
  case (1 g n t i0)
  from "1.prems" have lt: "i0 < maxRetries" by simp
  show ?case
  proof (cases "i0 = i")
    case True
    have "try_providers t (map (g i0) [0..<n]) = Some p"
      using "1.prems" True by (intro try_providers_first [where j = j]) auto
    with lt show ?thesis by (subst price_rounds.simps) simp
  next
    case False
    with "1.prems" have less: "i0 < i" by simp
    have none: "try_providers t (map (g i0) [0..<n]) = None"
      using "1.prems" less lt by (intro try_providers_none) auto
    have "price_rounds g n t (i0 + 1) = p"
      using "1.IH" [OF lt none] "1.prems" less by auto
    with lt none show ?thesis by (subst price_rounds.simps) simp
  qed
qed

lemma price_from_reserves_good:
  "0 < reserve0 \<Longrightarrow> 0 < reserve1 \<Longrightarrow>
   price_from_reserves t (Some (reserve0, reserve1)) =
     Some (((if t then reserve0 else reserve1) * 10 ^ 24) div (if t then reserve1 else reserve0))"
proof -
  assume pos: "0 < reserve0" "0 < reserve1"
  have scale: "(1000000::int) * 10 ^ 18 = 10 ^ 24" by simp
  have sd: "a sdiv b = a div b" if "0 \<le> a" "0 < b" for a b :: int
    using that by (simp add: signed_divide_int_def sgn_if)
  show ?thesis
  proof (cases t)
    case True
    have "(reserve0 * 1000000 * 10 ^ 18) sdiv reserve1 = (reserve0 * 10 ^ 24) div reserve1"
      using pos sd [of "reserve0 * 1000000 * 10 ^ 18" reserve1] by (simp add: mult.assoc)
    with True pos show ?thesis by (simp add: price_from_reserves_def)
  next
    case False
    have "(reserve1 * 1000000 * 10 ^ 18) sdiv reserve0 = (reserve1 * 10 ^ 24) div reserve0"
      using pos sd [of "reserve1 * 1000000 * 10 ^ 18" reserve0] by (simp add: mult.assoc)
    with False pos show ?thesis by (simp add: price_from_reserves_def)
  qed
qed

lemma price_from_reserves_bad:
  "(\<forall>r0 r1. response = Some (r0, r1) \<longrightarrow> r0 \<le> 0 \<or> r1 \<le> 0) \<Longrightarrow>
   price_from_reserves t response = None"
  by (auto simp: price_from_reserves_def split: option.splits)


lemma price_example:
  "getCurrentPriceFromReservesSafe (\<lambda>i j. Some (10 * 10 ^ 18, 1000 * 10 ^ 18)) k True = 10 ^ 22"
proof -
  have "price_from_reserves True (Some (10 * 10 ^ 18, 1000 * 10 ^ 18)) = Some (10 ^ 22)"
    by (subst price_from_reserves_good) simp_all
  then show ?thesis
    unfolding getCurrentPriceFromReservesSafe_def
    by (intro price_rounds_first [where i = 0 and j = 0]) (simp_all add: maxRetries_def)
qed

lemma getCurrentPriceFromReserves_agrees:
  "0 < reserve0 \<Longrightarrow> 0 < reserve1 \<Longrightarrow>
   Some (getCurrentPriceFromReserves (Some (reserve0, reserve1)) t) =
     price_from_reserves t (Some (reserve0, reserve1))"
  by (simp add: getCurrentPriceFromReserves_def price_from_reserves_def)

text \<open>
  Claim C6. The price is taken from the first call, in the order of the rounds and of
  the providers within a round, that returns two non-zero reserves, and it is the
  integer quotient of the base-asset reserve times \<open>10 ^ 24\<close> by the token reserve. When
  none of the calls of the five rounds returns two non-zero reserves the result is 0.
  For the reserves \<open>10 * 10 ^ 18\<close> and \<open>1000 * 10 ^ 18\<close> with the token as second leg the
  result is \<open>10 ^ 22\<close>, which is a hundredth of the scaling constant.
\<close>

theorem getCurrentPriceFromReservesSafe_scaled_price:
  "(i < 5 \<and> j < 1 + rpcProviders \<and> getReserves i j = Some (reserve0, reserve1)
      \<and> 0 < reserve0 \<and> 0 < reserve1
      \<and> (\<forall>i' j'. i' < 5 \<and> j' < 1 + rpcProviders \<and> (i' < i \<or> (i' = i \<and> j' < j)) \<longrightarrow>
            (\<forall>r0 r1. getReserves i' j' = Some (r0, r1) \<longrightarrow> r0 \<le> 0 \<or> r1 \<le> 0))
     \<longrightarrow> getCurrentPriceFromReservesSafe getReserves rpcProviders isToken1 =
           ((if isToken1 then reserve0 else reserve1) * 10 ^ 24) div
             (if isToken1 then reserve1 else reserve0))
   \<and> ((\<forall>i j. i < 5 \<and> j < 1 + rpcProviders \<longrightarrow>
            (\<forall>r0 r1. getReserves i j = Some (r0, r1) \<longrightarrow> r0 \<le> 0 \<or> r1 \<le> 0))
     \<longrightarrow> getCurrentPriceFromReservesSafe getReserves rpcProviders isToken1 = 0)
   \<and> getCurrentPriceFromReservesSafe (\<lambda>i j. Some (10 * 10 ^ 18, 1000 * 10 ^ 18))
        rpcProviders True = 10 ^ 22
   \<and> 100 * getCurrentPriceFromReservesSafe (\<lambda>i j. Some (10 * 10 ^ 18, 1000 * 10 ^ 18))
        rpcProviders True = 10 ^ 24"
proof (intro conjI impI)
  assume h: "i < 5 \<and> j < 1 + rpcProviders \<and> getReserves i j = Some (reserve0, reserve1)
      \<and> 0 < reserve0 \<and> 0 < reserve1
      \<and> (\<forall>i' j'. i' < 5 \<and> j' < 1 + rpcProviders \<and> (i' < i \<or> (i' = i \<and> j' < j)) \<longrightarrow>
            (\<forall>r0 r1. getReserves i' j' = Some (r0, r1) \<longrightarrow> r0 \<le> 0 \<or> r1 \<le> 0))"
  let ?p = "((if isToken1 then reserve0 else reserve1) * 10 ^ 24) div
             (if isToken1 then reserve1 else reserve0)"
  have good: "price_from_reserves isToken1 (getReserves i j) = Some ?p"
    using h price_from_reserves_good [of reserve0 reserve1 isToken1] by simp
  have earlier: "\<forall>i' j'. 0 \<le> i' \<and> i' < maxRetries \<and> j' < 1 + rpcProviders
        \<and> (i' < i \<or> (i' = i \<and> j' < j))
      \<longrightarrow> price_from_reserves isToken1 (getReserves i' j') = None"
  proof (intro allI impI)
    fix i' j'
    assume a: "0 \<le> i' \<and> i' < maxRetries \<and> j' < 1 + rpcProviders
        \<and> (i' < i \<or> (i' = i \<and> j' < j))"
    then have "\<forall>r0 r1. getReserves i' j' = Some (r0, r1) \<longrightarrow> r0 \<le> 0 \<or> r1 \<le> 0"
      using h by (simp add: maxRetries_def)
    then show "price_from_reserves isToken1 (getReserves i' j') = None"
      by (rule price_from_reserves_bad)
  qed
  show "getCurrentPriceFromReservesSafe getReserves rpcProviders isToken1 = ?p"
    unfolding getCurrentPriceFromReservesSafe_def
    using h good earlier
    by (intro price_rounds_first [where i = i and j = j]) (simp_all add: maxRetries_def)
next
  assume h: "\<forall>i j. i < 5 \<and> j < 1 + rpcProviders \<longrightarrow>
            (\<forall>r0 r1. getReserves i j = Some (r0, r1) \<longrightarrow> r0 \<le> 0 \<or> r1 \<le> 0)"
  have "\<forall>i' j'. 0 \<le> i' \<and> i' < maxRetries \<and> j' < 1 + rpcProviders
      \<longrightarrow> price_from_reserves isToken1 (getReserves i' j') = None"
  proof (intro allI impI)
    fix i' j'
    assume "0 \<le> i' \<and> i' < maxRetries \<and> j' < 1 + rpcProviders"
    then have "\<forall>r0 r1. getReserves i' j' = Some (r0, r1) \<longrightarrow> r0 \<le> 0 \<or> r1 \<le> 0"
      using h by (simp add: maxRetries_def)
    then show "price_from_reserves isToken1 (getReserves i' j') = None"
      by (rule price_from_reserves_bad)
  qed
  then show "getCurrentPriceFromReservesSafe getReserves rpcProviders isToken1 = 0"
    unfolding getCurrentPriceFromReservesSafe_def
    by (rule price_rounds_exhausted)
next
  show "getCurrentPriceFromReservesSafe (\<lambda>i j. Some (10 * 10 ^ 18, 1000 * 10 ^ 18))
        rpcProviders True = 10 ^ 22"
    by (rule price_example)
next
  show "100 * getCurrentPriceFromReservesSafe (\<lambda>i j. Some (10 * 10 ^ 18, 1000 * 10 ^ 18))
        rpcProviders True = 10 ^ 24"
    by (simp only: price_example) simp
qed

theorem getCurrentPriceFromReservesSafe_scaled_price_witness:
  "getCurrentPriceFromReservesSafe
     (\<lambda>i j. if i = 1 \<and> j = 1 then Some (7 * 10 ^ 18, 2 * 10 ^ 18) else None) 1 False
     = 285714285714285714285714
   \<and> getCurrentPriceFromReservesSafe (\<lambda>i j. Some (0, 5)) 1 False = 0"
proof -
  let ?g = "\<lambda>i j :: nat. if i = 1 \<and> j = 1 then Some (7 * 10 ^ 18 :: int, 2 * 10 ^ 18 :: int) else None"
  have "getCurrentPriceFromReservesSafe ?g 1 False = (2 * 10 ^ 18 * 10 ^ 24) div (7 * 10 ^ 18)"
    using getCurrentPriceFromReservesSafe_scaled_price
      [of 1 1 1 ?g "7 * 10 ^ 18" "2 * 10 ^ 18" False]
    by simp
  moreover have "getCurrentPriceFromReservesSafe (\<lambda>i j. Some (0, 5)) 1 False = 0"
    using getCurrentPriceFromReservesSafe_scaled_price
      [of 0 0 1 "\<lambda>i j. Some (0, 5)" 0 5 False]
    by simp
  ultimately show ?thesis by simp
qed

section \<open>Properties of the broadcaster\<close>

lemma first_success_None:
  "first_success subs = None \<longleftrightarrow> (\<forall>sub \<in> set subs. \<forall>hash index. sub = Accepted hash index \<longrightarrow> hash = [])"
  by (induction subs rule: first_success.induct) auto

lemma submit_one_Accepted:
  "submit_one index race = Accepted hash index' \<longleftrightarrow>
     race = Returns (Some hash) \<and> hash \<noteq> [] \<and> index' = index"
  by (auto simp: submit_one_def split: outcome.splits option.splits)

lemma set_submissions:
  "set (submissions races) = (\<lambda>(index, race). submit_one index race) ` set (enumerate 0 races)"
  by (simp add: submissions_def)

lemma submitRawTx_settled_fails_iff:
  "submitRawTx_settled races = Throws ''All RPC endpoints failed to broadcast transaction''
     \<longleftrightarrow> (\<forall>race \<in> set races. \<forall>hash. race = Returns (Some hash) \<longrightarrow> hash = [])"
proof -
  have "first_success (submissions races) = None
      \<longleftrightarrow> (\<forall>race \<in> set races. \<forall>hash. race = Returns (Some hash) \<longrightarrow> hash = [])"
  proof
    assume none: "first_success (submissions races) = None"
    show "\<forall>race \<in> set races. \<forall>hash. race = Returns (Some hash) \<longrightarrow> hash = []"
    proof (intro ballI allI impI)
      fix race hash
      assume mem: "race \<in> set races" and r: "race = Returns (Some hash)"
      from mem obtain k where k: "k < length races" "races ! k = race"
        by (auto simp: in_set_conv_nth)
      then have "(k, race) \<in> set (enumerate 0 races)"
        by (auto simp: in_set_enumerate_eq)
      then have "submit_one k race \<in> set (submissions races)"
        by (force simp: set_submissions)
      show "hash = []"
      proof (rule ccontr)
        assume "hash \<noteq> []"
        with r have "submit_one k race = Accepted hash k"
          by (simp add: submit_one_Accepted)
        with \<open>submit_one k race \<in> set (submissions races)\<close> none \<open>hash \<noteq> []\<close>
        show False
          by (auto simp: first_success_None)
      qed
    qed
  next
    assume all: "\<forall>race \<in> set races. \<forall>hash. race = Returns (Some hash) \<longrightarrow> hash = []"
    show "first_success (submissions races) = None"
      unfolding first_success_None
    proof (intro ballI allI impI)
      fix sub hash index
      assume "sub \<in> set (submissions races)" and acc: "sub = Accepted hash index"
      then obtain k race where "(k, race) \<in> set (enumerate 0 races)" "sub = submit_one k race"
        by (auto simp: set_submissions)
      then have "race \<in> set races"
        by (auto simp: in_set_enumerate_eq)
      moreover have "race = Returns (Some hash) \<and> hash \<noteq> []"
        using acc \<open>sub = submit_one k race\<close> by (simp add: submit_one_Accepted)
      ultimately show "hash = []" using all by blast
    qed
  qed
  then show ?thesis
    by (auto simp: submitRawTx_settled_def split: option.splits)
qed

text \<open>
  Claim C4, at the three endpoints of the specification's own test: the second endpoint
  has accepted the transaction and the other two have not answered yet. The call has not
  returned; it returns the hash of the second endpoint only once the first and the third
  have run into their timeouts. With two accepting endpoints the hash returned is the one
  of the lower index, whichever answered first.
\<close>

theorem submitRawTx_awaits_every_endpoint:
  "submitRawTx [None, Some (Returns (Some ''0xabc'')), None] = None
   \<and> submitRawTx [Some (Throws ''Timeout''), Some (Returns (Some ''0xabc'')),
        Some (Throws ''Timeout'')] = Some (Returns ''0xabc'')
   \<and> submitRawTx [Some (Returns (Some ''0xaaa'')), Some (Returns (Some ''0xabc''))]
        = Some (Returns ''0xaaa'')"
  by (simp add: submitRawTx_def submitRawTx_settled_def submissions_def submit_one_def)

section \<open>Properties of the approval\<close>

text \<open>
  Claim C8 as stated fails: with no allowance and 1000 tokens held, the one approval
  sent is not for 1000.
\<close>

theorem approveToken_not_exact_balance:
  "fst (approveToken \<lparr>allowance_call = Returns 0, approve_call = Returns (),
          wait_call = Returns ()\<rparr> 1000) \<noteq> [1000]"
  by (simp add: approveToken_def MaxUint256_def)

text \<open>
  Claim C8, amended. When the allowance of the router is below the amount, one approval
  is sent, for the largest 256-bit amount; when the allowance covers the amount, no
  approval is sent and the call returns. The selling path calls \<^verbatim>\<open>approveToken\<close> with
  the held balance as the amount, and sends what that call sends.
\<close>

theorem approveToken_unlimited:
  "(allowance_call chain = Returns allowance \<and> allowance < amount
      \<longrightarrow> fst (approveToken chain amount) = [2 ^ 256 - 1])
   \<and> (allowance_call chain = Returns allowance \<and> amount \<le> allowance
      \<longrightarrow> approveToken chain amount = ([], Returns ()))
   \<and> (i < length (ticks m) \<and> ticks m ! i = AwaitApprove c
      \<longrightarrow> approvals (monitor_step cfg p (Settle i (ApproveCalls chain)) m)
          = approvals m @ fst (approveToken chain (tokenBalance p)))"
proof (intro conjI impI)
  assume "allowance_call chain = Returns allowance \<and> allowance < amount"
  then show "fst (approveToken chain amount) = [2 ^ 256 - 1]"
    by (auto simp: approveToken_def MaxUint256_def split: outcome.splits)
next
  assume "allowance_call chain = Returns allowance \<and> amount \<le> allowance"
  then show "approveToken chain amount = ([], Returns ())"
    by (simp add: approveToken_def)
next
  assume "i < length (ticks m) \<and> ticks m ! i = AwaitApprove c"
  then show "approvals (monitor_step cfg p (Settle i (ApproveCalls chain)) m)
          = approvals m @ fst (approveToken chain (tokenBalance p))"
    by (cases "approveToken chain (tokenBalance p)"; cases "snd (approveToken chain (tokenBalance p))")
      (simp_all add: monitor_step_def set_tick_def)
qed

theorem approveToken_unlimited_witness:
  "fst (approveToken \<lparr>allowance_call = Returns 5, approve_call = Returns (),
          wait_call = Returns ()\<rparr> 1000) = [2 ^ 256 - 1]
   \<and> approveToken \<lparr>allowance_call = Returns 1000, approve_call = Throws ''unused'',
          wait_call = Throws ''unused''\<rparr> 1000 = ([], Returns ())
   \<and> approvals (monitor_step
        \<lparr>MIN_LIQUIDITY_BNB = 0, etherNumber = (\<lambda>w. of_int w / 10 ^ 18), name_keywords = [], toLowerCase = ascii_lower,
          spend = ''0.0005'', rpcProviders_length = 1\<rparr>
        \<lparr>tokenIsToken1 = True, tokenBalance = 1000, initialPrice = 10 ^ 22,
          initialLiquidityBNB = 0\<rparr>
        (Settle 0 (ApproveCalls \<lparr>allowance_call = Returns 5, approve_call = Returns (),
          wait_call = Returns ()\<rparr>))
        \<lparr>isSnipingActive = True, currentTargetToken = Some ''0xA'', currentNonce = 8,
          sold = True, interval = False, highestPriceSeen = 11 * 10 ^ 21,
          ticks = [AwaitApprove ProfitCheck], reasons = [profit_reason], approvals = [],
          broadcasts = []\<rparr>) = [2 ^ 256 - 1]"
proof -
  let ?c1 = "\<lparr>allowance_call = Returns 5, approve_call = Returns (), wait_call = Returns ()\<rparr>"
  let ?c2 = "\<lparr>allowance_call = Returns 1000, approve_call = Throws ''unused'',
          wait_call = Throws ''unused''\<rparr>"
  let ?cfg = "\<lparr>MIN_LIQUIDITY_BNB = 0, etherNumber = (\<lambda>w. of_int w / 10 ^ 18),
          name_keywords = [], toLowerCase = ascii_lower, spend = ''0.0005'', rpcProviders_length = 1\<rparr>"
  let ?p = "\<lparr>tokenIsToken1 = True, tokenBalance = 1000, initialPrice = 10 ^ 22,
          initialLiquidityBNB = 0\<rparr>"
  let ?m = "\<lparr>isSnipingActive = True, currentTargetToken = Some ''0xA'', currentNonce = 8,
          sold = True, interval = False, highestPriceSeen = 11 * 10 ^ 21,
          ticks = [AwaitApprove ProfitCheck], reasons = [profit_reason], approvals = [],
          broadcasts = []\<rparr>"
  have a: "fst (approveToken ?c1 1000) = [2 ^ 256 - 1]"
    using approveToken_unlimited [of ?c1 5 1000] by simp
  have b: "approveToken ?c2 1000 = ([], Returns ())"
    using approveToken_unlimited [of ?c2 1000 1000] by simp
  have "approvals (monitor_step ?cfg ?p (Settle 0 (ApproveCalls ?c1)) ?m)
      = approvals ?m @ fst (approveToken ?c1 (tokenBalance ?p))"
    using approveToken_unlimited [of ?c1 5 1000 0 ?m ProfitCheck ?cfg ?p] by simp
  with a have c: "approvals (monitor_step ?cfg ?p (Settle 0 (ApproveCalls ?c1)) ?m)
      = [2 ^ 256 - 1]"
    by simp
  from a b c show ?thesis by blast
qed

section \<open>Properties of the buy\<close>

lemma executeSwap_submitted:
  "executeSwap chain competitiveGas nonce = (Returns (SwapSubmitted txHash tx), nonce') \<Longrightarrow>
   swap_gasPrice chain competitiveGas = Returns (tx_gasPrice tx) \<and> tx_nonce tx = nonce
     \<and> nonce' = nonce + 1
     \<and> submitRawTx_settled (broadcast_races chain) = Returns txHash"
proof -
  assume a: "executeSwap chain competitiveGas nonce = (Returns (SwapSubmitted txHash tx), nonce')"
  have r: "swap_try chain competitiveGas nonce = Returns (txHash, tx)" and n: "nonce' = nonce + 1"
    using a by (auto simp: executeSwap_def split: outcome.splits if_splits prod.splits)
  from r show ?thesis
    unfolding swap_try_def using n
    by (auto split: outcome.splits)
qed

lemma competitive_gasPrice_pos:
  "0 < g \<Longrightarrow> competitive_gasPrice (Some g) = (g * 150) div 100"
  by (simp add: competitive_gasPrice_def signed_divide_int_def sgn_if)

lemma competitive_gasPrice_fallback:
  "competitive_gasPrice None = 4500000000" "competitive_gasPrice (Some 0) = 4500000000"
  by (simp_all add: competitive_gasPrice_def gwei_def signed_divide_int_def)

lemma executeSwap_gas_unbounded: "\<exists>chain txHash tx nonce'.
        executeSwap chain True 0 = (Returns (SwapSubmitted txHash tx), nonce')
        \<and> limit < tx_gasPrice tx"
proof -
  define g where "g = max 1 (limit + 1)"
  define chain where "chain = \<lparr>parseEther_call = Returns 1,
       getFeeData_call = Returns (Some g), populate_call = Returns (),
       sign_call = Returns (), broadcast_races = [Returns (Some ''0xabc'')],
       resync_call = Returns 0\<rparr>"
  have pos: "0 < g" by (simp add: g_def)
  have "g * 100 \<le> g * 150" using pos by simp
  then have "g \<le> (g * 150) div 100"
    by linarith
  then have big: "limit < (g * 150) div 100" by (simp add: g_def)
  have "executeSwap chain True 0 = (Returns (SwapSubmitted ''0xabc''
          \<lparr>tx_value = 1, tx_gasPrice = (g * 150) div 100, tx_nonce = 0\<rparr>), 1)"
    using competitive_gasPrice_pos [OF pos]
    by (simp add: executeSwap_def swap_try_def swap_gasPrice_def chain_def
      submitRawTx_settled_def submissions_def submit_one_def)
  with big show ?thesis by force
qed

text \<open>
  Claim C9 as stated fails: with a network gas price of 100 gwei the competitive buy is
  signed with 150 gwei, above the configured maximum of 10 gwei.
\<close>

theorem executeSwap_gas_above_maximum:
  "executeSwap \<lparr>parseEther_call = Returns (10 ^ 15),
       getFeeData_call = Returns (Some (100 * gwei)), populate_call = Returns (),
       sign_call = Returns (), broadcast_races = [Returns (Some ''0xabc'')],
       resync_call = Returns 0\<rparr> True 7
     = (Returns (SwapSubmitted ''0xabc''
          \<lparr>tx_value = 10 ^ 15, tx_gasPrice = 150 * gwei, tx_nonce = 7\<rparr>), 8)
   \<and> \<not> 150 * gwei \<le> maxGasPrice_default"
  by (simp add: executeSwap_def swap_try_def swap_gasPrice_def competitive_gasPrice_def
      submitRawTx_settled_def submissions_def submit_one_def gwei_def maxGasPrice_default_def
      signed_divide_int_def)

text \<open>
  Claim C9, amended. A submitted buy without the competitive option has the fixed gas
  price of 0.05 gwei. With the option it has the network gas price times 150 over 100,
  rounded down, where a missing or zero network gas price counts as 3 gwei. No maximum
  is applied: every limit is exceeded by some submitted competitive buy.
\<close>

theorem executeSwap_gas_price:
  "(executeSwap chain False nonce = (Returns (SwapSubmitted txHash tx), nonce')
      \<longrightarrow> tx_gasPrice tx = 50000000)
   \<and> (executeSwap chain True nonce = (Returns (SwapSubmitted txHash tx), nonce')
        \<and> getFeeData_call chain = Returns (Some networkGas) \<and> 0 < networkGas
      \<longrightarrow> tx_gasPrice tx = (networkGas * 150) div 100)
   \<and> (executeSwap chain True nonce = (Returns (SwapSubmitted txHash tx), nonce')
        \<and> (getFeeData_call chain = Returns None \<or> getFeeData_call chain = Returns (Some 0))
      \<longrightarrow> tx_gasPrice tx = 4500000000)
   \<and> (\<forall>limit. \<exists>chain' txHash' tx' nonce''.
         executeSwap chain' True 0 = (Returns (SwapSubmitted txHash' tx'), nonce'')
         \<and> limit < tx_gasPrice tx')"
proof (intro conjI impI allI)
  assume "executeSwap chain False nonce = (Returns (SwapSubmitted txHash tx), nonce')"
  from executeSwap_submitted [OF this] show "tx_gasPrice tx = 50000000"
    by (simp add: swap_gasPrice_def default_gasPrice_def)
next
  assume a: "executeSwap chain True nonce = (Returns (SwapSubmitted txHash tx), nonce')
        \<and> getFeeData_call chain = Returns (Some networkGas) \<and> 0 < networkGas"
  then have "swap_gasPrice chain True = Returns (tx_gasPrice tx)"
    using executeSwap_submitted by blast
  with a show "tx_gasPrice tx = (networkGas * 150) div 100"
    by (simp add: swap_gasPrice_def competitive_gasPrice_pos)
next
  assume a: "executeSwap chain True nonce = (Returns (SwapSubmitted txHash tx), nonce')
        \<and> (getFeeData_call chain = Returns None \<or> getFeeData_call chain = Returns (Some 0))"
  then have "swap_gasPrice chain True = Returns (tx_gasPrice tx)"
    using executeSwap_submitted by blast
  with a show "tx_gasPrice tx = 4500000000"
    by (auto simp: swap_gasPrice_def competitive_gasPrice_fallback)
next
  fix limit
  show "\<exists>chain' txHash' tx' nonce''.
         executeSwap chain' True 0 = (Returns (SwapSubmitted txHash' tx'), nonce'')
         \<and> limit < tx_gasPrice tx'"
    by (rule executeSwap_gas_unbounded)
qed

theorem executeSwap_gas_price_witness:
  "executeSwap \<lparr>parseEther_call = Returns 500000000000000,
       getFeeData_call = Returns (Some 3000000001), populate_call = Returns (),
       sign_call = Returns (), broadcast_races = [Returns (Some ''0xabc'')],
       resync_call = Returns 0\<rparr> True 7
     = (Returns (SwapSubmitted ''0xabc''
          \<lparr>tx_value = 500000000000000, tx_gasPrice = 4500000001, tx_nonce = 7\<rparr>), 8)
   \<and> executeSwap \<lparr>parseEther_call = Returns 500000000000000,
       getFeeData_call = Returns None, populate_call = Returns (),
       sign_call = Returns (), broadcast_races = [Returns (Some ''0xabc'')],
       resync_call = Returns 0\<rparr> False 7
     = (Returns (SwapSubmitted ''0xabc''
          \<lparr>tx_value = 500000000000000, tx_gasPrice = 50000000, tx_nonce = 7\<rparr>), 8)
   \<and> tx_gasPrice \<lparr>tx_value = 500000000000000, tx_gasPrice = 4500000001, tx_nonce = 7\<rparr>
       = (3000000001 * 150) div 100"
proof -
  let ?c1 = "\<lparr>parseEther_call = Returns 500000000000000,
       getFeeData_call = Returns (Some 3000000001), populate_call = Returns (),
       sign_call = Returns (), broadcast_races = [Returns (Some ''0xabc'')],
       resync_call = Returns 0\<rparr>"
  let ?c2 = "\<lparr>parseEther_call = Returns 500000000000000,
       getFeeData_call = Returns None, populate_call = Returns (),
       sign_call = Returns (), broadcast_races = [Returns (Some ''0xabc'')],
       resync_call = Returns 0\<rparr>"
  let ?t1 = "\<lparr>tx_value = 500000000000000, tx_gasPrice = 4500000001, tx_nonce = 7\<rparr>"
  let ?t2 = "\<lparr>tx_value = 500000000000000, tx_gasPrice = 50000000, tx_nonce = 7\<rparr>"
  have e1: "executeSwap ?c1 True 7 = (Returns (SwapSubmitted ''0xabc'' ?t1), 8)"
    by (simp add: executeSwap_def swap_try_def swap_gasPrice_def competitive_gasPrice_def
      submitRawTx_settled_def submissions_def submit_one_def signed_divide_int_def)
  have e2: "executeSwap ?c2 False 7 = (Returns (SwapSubmitted ''0xabc'' ?t2), 8)"
    by (simp add: executeSwap_def swap_try_def swap_gasPrice_def default_gasPrice_def
      submitRawTx_settled_def submissions_def submit_one_def)
  have "tx_gasPrice ?t1 = (3000000001 * 150) div 100"
    using executeSwap_gas_price [of ?c1 7 "''0xabc''" ?t1 8 3000000001] e1 by simp
  moreover have "tx_gasPrice ?t2 = 50000000"
    using executeSwap_gas_price [of ?c2 7 "''0xabc''" ?t2 8] e2 by simp
  ultimately show ?thesis using e1 e2 by simp
qed

section \<open>Properties of the sniping lock\<close>

lemma filter_update_count:
  "i < length xs \<Longrightarrow>
   length (filter P (xs[i := y])) + (if P (xs ! i) then 1 else 0)
     = length (filter P xs) + (if P y then 1 else 0)"
proof (induction xs arbitrary: i)
  case Nil
  then show ?case by simp
next
  case (Cons x xs)
  show ?case
  proof (cases i)
    case 0
    then show ?thesis by simp
  next
    case (Suc k)
    with Cons.prems have "k < length xs" by simp
    from Cons.IH [OF this] Suc show ?thesis by simp
  qed
qed

lemma handlers_set_pc [simp]:
  "handlers (set_pc i p s) = (handlers s)[i := (handlers s ! i)\<lparr>pc := p\<rparr>]"
  "isSnipingActive (set_pc i p s) = isSnipingActive s"
  "currentTargetToken (set_pc i p s) = currentTargetToken s"
  "exited (set_pc i p s) = exited s"
  by (simp_all add: set_pc_def)

lemma holders_set_pc:
  "i < length (handlers s) \<Longrightarrow>
   holders (set_pc i p s) + (if holding (handlers s ! i) then 1 else 0)
     = holders s + (if p = AwaitSwap \<or> p = ProcessExit then 1 else 0)"
  using filter_update_count [of i "handlers s" holding "(handlers s ! i)\<lparr>pc := p\<rparr>"]
  by (simp add: holders_def holding_def)

lemma rejected_set_pc:
  "i < length (handlers s) \<Longrightarrow>
   rejected (set_pc i p s) + (if pc (handlers s ! i) = Busy then 1 else 0)
     = rejected s + (if p = Busy then 1 else 0)"
  using filter_update_count [of i "handlers s" "\<lambda>h. pc h = Busy" "(handlers s ! i)\<lparr>pc := p\<rparr>"]
  by (simp add: rejected_def)

lemma after_reserves_cases:
  "after_reserves cfg s h r \<in> {Filtered, Busy, AwaitTokenInfo}"
  by (auto simp: after_reserves_def split: outcome.splits)

lemma after_tokenInfo_cases:
  "after_tokenInfo cfg s r \<in> {Filtered, Busy, AwaitSleep}"
  by (auto simp: after_tokenInfo_def split: option.splits)

lemma holders_unlock [simp]: "holders (unlock s) = holders s" "handlers (unlock s) = handlers s"
  by (simp_all add: holders_def unlock_def)

lemma lock_inv_resume:
  assumes "lock_inv s"
  shows "lock_inv (resume cfg i input s)"
proof (cases "i < length (handlers s)")
  case False
  with assms show ?thesis by (simp add: resume_def)
next
  case True
  note i = True
  show ?thesis
  proof (cases "pc (handlers s ! i)")
    case AwaitReserves
    then have nh: "\<not> holding (handlers s ! i)" by (simp add: holding_def)
    show ?thesis
    proof (cases input)
      case (ReservesResult r)
      have "holders (set_pc i (after_reserves cfg s (handlers s ! i) r) s) = holders s"
        using holders_set_pc [OF i, of "after_reserves cfg s (handlers s ! i) r"] nh
          after_reserves_cases [of cfg s "handlers s ! i" r]
        by auto
      with assms i AwaitReserves ReservesResult show ?thesis
        by (simp add: resume_def lock_inv_def)
    qed (use assms i AwaitReserves in \<open>simp_all add: resume_def\<close>)
  next
    case AwaitTokenInfo
    then have nh: "\<not> holding (handlers s ! i)" by (simp add: holding_def)
    show ?thesis
    proof (cases input)
      case (TokenInfoResult r)
      have "holders (set_pc i (after_tokenInfo cfg s r) s) = holders s"
        using holders_set_pc [OF i, of "after_tokenInfo cfg s r"] nh
          after_tokenInfo_cases [of cfg s r]
        by auto
      with assms i AwaitTokenInfo TokenInfoResult show ?thesis
        by (simp add: resume_def lock_inv_def)
    qed (use assms i AwaitTokenInfo in \<open>simp_all add: resume_def\<close>)
  next
    case AwaitSleep
    then have nh: "\<not> holding (handlers s ! i)" by (simp add: holding_def)
    show ?thesis
    proof (cases input)
      case TimerFired
      show ?thesis
      proof (cases "isSnipingActive s")
        case True
        have "holders (set_pc i Busy s) = holders s"
          using holders_set_pc [OF i, of Busy] nh by simp
        with assms i AwaitSleep TimerFired True show ?thesis
          by (simp add: resume_def lock_inv_def after_sleep_def)
      next
        case False
        let ?l = "s\<lparr>isSnipingActive := True,
                     currentTargetToken := Some (newToken cfg (handlers s ! i))\<rparr>"
        have hl: "holders ?l = 0" "handlers ?l = handlers s"
          using assms False by (simp_all add: lock_inv_def holders_def)
        have "holders (set_pc i p ?l) = 1" if "p = AwaitSwap \<or> p = ProcessExit" for p
          using holders_set_pc [of i ?l p] i nh hl that by auto
        then have "holders (set_pc i AwaitSwap ?l) = 1" "holders (set_pc i ProcessExit ?l) = 1"
          by simp_all
        moreover have "holders ((set_pc i ProcessExit ?l)\<lparr>exited := Some 1\<rparr>)
            = holders (set_pc i ProcessExit ?l)"
          by (simp add: holders_def)
        ultimately show ?thesis
          using i AwaitSleep TimerFired False
          by (simp add: resume_def lock_inv_def after_sleep_def Let_def)
      qed
    qed (use assms i AwaitSleep in \<open>simp_all add: resume_def\<close>)
  next
    case AwaitSwap
    then have h: "holding (handlers s ! i)" by (simp add: holding_def)
    show ?thesis
    proof (cases input)
      case LifecycleEnded
      have "holders s \<ge> 1"
        using h i by (auto simp: holders_def filter_empty_conv in_set_conv_nth
            intro!: Suc_leI length_pos_if_in_set [of "handlers s ! i"])
      with assms have act: "isSnipingActive s" "holders s = 1"
        by (auto simp: lock_inv_def split: if_splits)
      have "holders (set_pc i Finished (unlock s)) + 1 = holders (unlock s)"
        using holders_set_pc [of i "unlock s" Finished] i h by simp
      with act have "holders (set_pc i Finished (unlock s)) = 0" by simp
      then show ?thesis
        using i AwaitSwap LifecycleEnded
        by (simp add: resume_def lock_inv_def unlock_def)
    qed (use assms i AwaitSwap in \<open>simp_all add: resume_def\<close>)
  qed (use assms i in \<open>simp_all add: resume_def split: handler_input.splits\<close>)
qed

lemma lock_inv_step: "lock_inv s \<Longrightarrow> lock_inv (system_step cfg a s)"
proof (cases a)
  case (PairCreated t0 t1)
  assume "lock_inv s"
  moreover have "\<not> holding (on_PairCreated cfg t0 t1)"
    by (simp add: holding_def on_PairCreated_def)
  ultimately show ?thesis
    using PairCreated by (auto simp: system_step_def lock_inv_def holders_def split: if_splits)
next
  case (Resume i input)
  assume "lock_inv s"
  then show ?thesis
    using Resume lock_inv_resume by (simp add: system_step_def)
qed

lemma lock_inv_run: "lock_inv s \<Longrightarrow> lock_inv (system_run cfg sched s)"
  by (induction sched arbitrary: s) (simp_all add: lock_inv_step)

lemma lock_inv_fresh: "lock_inv fresh"
  by (simp add: lock_inv_def fresh_def holders_def)

lemma busy_inv_resume:
  assumes "busy_inv s" "input \<noteq> LifecycleEnded"
  shows "busy_inv (resume cfg i input s)"
proof (cases "i < length (handlers s)")
  case False
  with assms show ?thesis by (simp add: resume_def)
next
  case True
  note i = True
  have keep: "busy_inv (set_pc i p s)" if "pc (handlers s ! i) \<noteq> Busy" "p = Busy \<longrightarrow> isSnipingActive s" for p
    using rejected_set_pc [OF i, of p] that assms(1) by (auto simp: busy_inv_def split: if_splits)
  show ?thesis
  proof (cases "pc (handlers s ! i)")
    case AwaitReserves
    show ?thesis
    proof (cases input)
      case (ReservesResult r)
      have "after_reserves cfg s (handlers s ! i) r = Busy \<longrightarrow> isSnipingActive s"
        by (auto simp: after_reserves_def split: outcome.splits if_splits)
      with keep [of "after_reserves cfg s (handlers s ! i) r"] i AwaitReserves ReservesResult
      show ?thesis by (simp add: resume_def)
    qed (use assms i AwaitReserves in \<open>simp_all add: resume_def\<close>)
  next
    case AwaitTokenInfo
    show ?thesis
    proof (cases input)
      case (TokenInfoResult r)
      have "after_tokenInfo cfg s r = Busy \<longrightarrow> isSnipingActive s"
        by (auto simp: after_tokenInfo_def split: option.splits if_splits)
      with keep [of "after_tokenInfo cfg s r"] i AwaitTokenInfo TokenInfoResult
      show ?thesis by (simp add: resume_def)
    qed (use assms i AwaitTokenInfo in \<open>simp_all add: resume_def\<close>)
  next
    case AwaitSleep
    show ?thesis
    proof (cases input)
      case TimerFired
      show ?thesis
      proof (cases "isSnipingActive s")
        case True
        with keep [of Busy] i AwaitSleep TimerFired show ?thesis
          by (simp add: resume_def after_sleep_def)
      next
        case False
        with i AwaitSleep TimerFired show ?thesis
          by (simp add: resume_def after_sleep_def Let_def busy_inv_def)
      qed
    qed (use assms i AwaitSleep in \<open>simp_all add: resume_def\<close>)
  qed (use assms i in \<open>simp_all add: resume_def split: handler_input.splits\<close>)
qed

lemma busy_inv_step:
  "busy_inv s \<Longrightarrow> \<not> is_release a \<Longrightarrow> busy_inv (system_step cfg a s)"
proof (cases a)
  case (PairCreated t0 t1)
  assume "busy_inv s"
  moreover have "pc (on_PairCreated cfg t0 t1) \<noteq> Busy"
    by (simp add: on_PairCreated_def)
  ultimately show ?thesis
    using PairCreated by (auto simp: system_step_def busy_inv_def rejected_def split: if_splits)
next
  case (Resume i input)
  assume "busy_inv s" "\<not> is_release a"
  then show ?thesis
    using Resume busy_inv_resume [of s input cfg i]
    by (auto simp: system_step_def is_release_def split: handler_input.splits)
qed

lemma busy_inv_run:
  "busy_inv s \<Longrightarrow> \<forall>a \<in> set sched. \<not> is_release a \<Longrightarrow> busy_inv (system_run cfg sched s)"
  by (induction sched arbitrary: s) (simp_all add: busy_inv_step)

lemma busy_inv_fresh: "busy_inv fresh"
  by (simp add: busy_inv_def fresh_def rejected_def)

lemma no_finished_set_pc:
  "no_finished s \<Longrightarrow> p \<noteq> Finished \<Longrightarrow> no_finished (set_pc i p s)"
  unfolding no_finished_def
proof
  fix h
  assume a: "\<forall>h \<in> set (handlers s). pc h \<noteq> Finished" "p \<noteq> Finished"
    and h: "h \<in> set (handlers (set_pc i p s))"
  from h have "h \<in> insert ((handlers s ! i)\<lparr>pc := p\<rparr>) (set (handlers s))"
    using set_update_subset_insert [of "handlers s" i] by auto
  with a show "pc h \<noteq> Finished" by auto
qed

lemma no_finished_resume:
  assumes "no_finished s" "input \<noteq> LifecycleEnded"
  shows "no_finished (resume cfg i input s)"
proof (cases "i < length (handlers s)")
  case False
  with assms show ?thesis by (simp add: resume_def)
next
  case True
  note i = True
  show ?thesis
  proof (cases "pc (handlers s ! i)")
    case AwaitReserves
    show ?thesis
    proof (cases input)
      case (ReservesResult r)
      have "after_reserves cfg s (handlers s ! i) r \<noteq> Finished"
        using after_reserves_cases [of cfg s "handlers s ! i" r] by auto
      with assms(1) i AwaitReserves ReservesResult show ?thesis
        by (simp add: resume_def no_finished_set_pc)
    qed (use assms i AwaitReserves in \<open>simp_all add: resume_def\<close>)
  next
    case AwaitTokenInfo
    show ?thesis
    proof (cases input)
      case (TokenInfoResult r)
      have "after_tokenInfo cfg s r \<noteq> Finished"
        using after_tokenInfo_cases [of cfg s r] by auto
      with assms(1) i AwaitTokenInfo TokenInfoResult show ?thesis
        by (simp add: resume_def no_finished_set_pc)
    qed (use assms i AwaitTokenInfo in \<open>simp_all add: resume_def\<close>)
  next
    case AwaitSleep
    show ?thesis
    proof (cases input)
      case TimerFired
      let ?l = "s\<lparr>isSnipingActive := True,
                   currentTargetToken := Some (newToken cfg (handlers s ! i))\<rparr>"
      have l: "no_finished ?l" using assms(1) by (simp add: no_finished_def)
      have "no_finished ((set_pc i ProcessExit ?l)\<lparr>exited := Some 1\<rparr>)"
        using no_finished_set_pc [OF l, of ProcessExit i] by (simp add: no_finished_def)
      moreover have "no_finished (set_pc i AwaitSwap ?l)" "no_finished (set_pc i Busy s)"
        using no_finished_set_pc [OF l, of AwaitSwap i] no_finished_set_pc [OF assms(1), of Busy i]
        by simp_all
      ultimately show ?thesis
        using i AwaitSleep TimerFired by (simp add: resume_def after_sleep_def Let_def)
    qed (use assms i AwaitSleep in \<open>simp_all add: resume_def\<close>)
  qed (use assms i in \<open>simp_all add: resume_def split: handler_input.splits\<close>)
qed

lemma no_finished_step:
  "no_finished s \<Longrightarrow> \<not> is_release a \<Longrightarrow> no_finished (system_step cfg a s)"
proof (cases a)
  case (PairCreated t0 t1)
  assume "no_finished s"
  moreover have "pc (on_PairCreated cfg t0 t1) \<noteq> Finished"
    by (simp add: on_PairCreated_def)
  ultimately show ?thesis
    using PairCreated by (auto simp: system_step_def no_finished_def split: if_splits)
next
  case (Resume i input)
  assume "no_finished s" "\<not> is_release a"
  then show ?thesis
    using Resume no_finished_resume [of s input cfg i]
    by (auto simp: system_step_def is_release_def split: handler_input.splits)
qed

lemma no_finished_run:
  "no_finished s \<Longrightarrow> \<forall>a \<in> set sched. \<not> is_release a \<Longrightarrow> no_finished (system_run cfg sched s)"
  by (induction sched arbitrary: s) (simp_all add: no_finished_step)

lemma no_finished_fresh: "no_finished fresh"
  by (simp add: no_finished_def fresh_def)

lemma settled_count:
  assumes "\<forall>h \<in> set hs. holding h \<or> pc h = Busy"
  shows "length (filter holding hs) + length (filter (\<lambda>h. pc h = Busy) hs) = length hs"
  using assms by (induction hs) (auto simp: holding_def)

lemma one_accepted:
  assumes inv: "lock_inv s" "busy_inv s"
    and ne: "handlers s \<noteq> []"
    and nf: "no_finished s"
    and settled: "\<forall>h \<in> set (handlers s). \<not> pending h \<and> pc h \<noteq> Filtered"
  shows "holders s = 1 \<and> rejected s = length (handlers s) - 1"
proof -
  have all: "\<forall>h \<in> set (handlers s). holding h \<or> pc h = Busy"
  proof
    fix h assume "h \<in> set (handlers s)"
    with settled nf have "\<not> pending h \<and> pc h \<noteq> Filtered \<and> pc h \<noteq> Finished"
      by (auto simp: no_finished_def)
    then show "holding h \<or> pc h = Busy"
      by (cases "pc h") (simp_all add: pending_def holding_def)
  qed
  have sum: "holders s + rejected s = length (handlers s)"
    using settled_count [OF all] by (simp add: holders_def rejected_def)
  have "holders s = 1"
  proof (cases "isSnipingActive s")
    case True
    with inv(1) show ?thesis by (simp add: lock_inv_def)
  next
    case False
    with inv have "holders s = 0" "rejected s = 0"
      by (auto simp: lock_inv_def busy_inv_def)
    with sum ne show ?thesis by simp
  qed
  with sum show ?thesis by simp
qed


lemma lock_kept_while_taken:
  assumes "isSnipingActive s" "\<not> is_release a"
  shows "isSnipingActive (system_step cfg a s) \<and>
         currentTargetToken (system_step cfg a s) = currentTargetToken s"
proof (cases a)
  case (PairCreated t0 t1)
  with assms show ?thesis by (simp add: system_step_def)
next
  case (Resume i input)
  have "isSnipingActive (resume cfg i input s) \<and>
        currentTargetToken (resume cfg i input s) = currentTargetToken s"
  proof (cases "i < length (handlers s)")
    case False
    with assms show ?thesis by (simp add: resume_def)
  next
    case True
    with assms Resume show ?thesis
      by (cases "pc (handlers s ! i)"; cases input)
        (simp_all add: resume_def after_sleep_def is_release_def)
  qed
  with assms Resume show ?thesis by (simp add: system_step_def)
qed

lemma acquire_step:
  assumes "exited s = None" "i < length (handlers s)" "pc (handlers s ! i) = AwaitSleep"
  shows "(isSnipingActive s \<longrightarrow>
            pc (handlers (system_step cfg (Resume i TimerFired) s) ! i) = Busy)
       \<and> (\<not> isSnipingActive s \<longrightarrow>
            isSnipingActive (system_step cfg (Resume i TimerFired) s)
            \<and> currentTargetToken (system_step cfg (Resume i TimerFired) s)
                = Some (newToken cfg (handlers s ! i))
            \<and> holding (handlers (system_step cfg (Resume i TimerFired) s) ! i))"
  using assms
  by (simp add: system_step_def resume_def after_sleep_def Let_def holding_def)

text \<open>
  Claim C1. For every interleaving of handler segments, at most one handler holds the
  sniping lock, and the lock is taken exactly when one does. While the lock is taken, no
  step other than the end of the holder's lifecycle changes it. The handler that wakes
  from its 80 ms sleep takes the lock and sets the target in the same segment when the
  lock is free, and is turned away when it is taken. When no lifecycle ends meanwhile and
  every one of the events has qualified and run to completion, exactly one handler was
  accepted and all the others were turned away.
\<close>

theorem sniping_lock_single_flight:
  "holders (system_run cfg sched fresh) \<le> 1
   \<and> (isSnipingActive (system_run cfg sched fresh) \<longleftrightarrow> holders (system_run cfg sched fresh) = 1)
   \<and> (isSnipingActive s \<and> \<not> is_release a \<longrightarrow>
        isSnipingActive (system_step cfg a s)
        \<and> currentTargetToken (system_step cfg a s) = currentTargetToken s)
   \<and> (exited s = None \<and> i < length (handlers s) \<and> pc (handlers s ! i) = AwaitSleep \<longrightarrow>
        (isSnipingActive s \<longrightarrow>
            pc (handlers (system_step cfg (Resume i TimerFired) s) ! i) = Busy)
        \<and> (\<not> isSnipingActive s \<longrightarrow>
            isSnipingActive (system_step cfg (Resume i TimerFired) s)
            \<and> currentTargetToken (system_step cfg (Resume i TimerFired) s)
                = Some (newToken cfg (handlers s ! i))
            \<and> holding (handlers (system_step cfg (Resume i TimerFired) s) ! i)))
   \<and> ((\<forall>a \<in> set sched. \<not> is_release a)
        \<and> handlers (system_run cfg sched fresh) \<noteq> []
        \<and> (\<forall>h \<in> set (handlers (system_run cfg sched fresh)). \<not> pending h \<and> pc h \<noteq> Filtered)
      \<longrightarrow> holders (system_run cfg sched fresh) = 1
          \<and> rejected (system_run cfg sched fresh)
              = length (handlers (system_run cfg sched fresh)) - 1)"
proof (intro conjI impI)
  have inv: "lock_inv (system_run cfg sched fresh)"
    by (rule lock_inv_run [OF lock_inv_fresh])
  then show "holders (system_run cfg sched fresh) \<le> 1"
    by (simp add: lock_inv_def split: if_splits)
  from inv show "isSnipingActive (system_run cfg sched fresh)
      \<longleftrightarrow> holders (system_run cfg sched fresh) = 1"
    by (simp add: lock_inv_def split: if_splits)
next
  assume "isSnipingActive s \<and> \<not> is_release a"
  then show "isSnipingActive (system_step cfg a s)"
    and "currentTargetToken (system_step cfg a s) = currentTargetToken s"
    using lock_kept_while_taken by blast+
next
  assume a: "exited s = None \<and> i < length (handlers s) \<and> pc (handlers s ! i) = AwaitSleep"
  then have *: "exited s = None" "i < length (handlers s)" "pc (handlers s ! i) = AwaitSleep"
    by simp_all
  {
    assume "isSnipingActive s"
    then show "pc (handlers (system_step cfg (Resume i TimerFired) s) ! i) = Busy"
      using acquire_step [OF *] by blast
  }
  {
    assume n: "\<not> isSnipingActive s"
    then show "isSnipingActive (system_step cfg (Resume i TimerFired) s)"
      using acquire_step [OF *] by blast
    from n show "currentTargetToken (system_step cfg (Resume i TimerFired) s)
                = Some (newToken cfg (handlers s ! i))"
      using acquire_step [OF *] by blast
    from n show "holding (handlers (system_step cfg (Resume i TimerFired) s) ! i)"
      using acquire_step [OF *] by blast
  }
next
  assume a: "(\<forall>a \<in> set sched. \<not> is_release a)
        \<and> handlers (system_run cfg sched fresh) \<noteq> []
        \<and> (\<forall>h \<in> set (handlers (system_run cfg sched fresh)). \<not> pending h \<and> pc h \<noteq> Filtered)"
  have "lock_inv (system_run cfg sched fresh)"
    by (rule lock_inv_run [OF lock_inv_fresh])
  moreover have "busy_inv (system_run cfg sched fresh)"
    using a by (intro busy_inv_run [OF busy_inv_fresh]) simp
  moreover have "no_finished (system_run cfg sched fresh)"
    using a by (intro no_finished_run [OF no_finished_fresh]) simp
  ultimately have r: "holders (system_run cfg sched fresh) = 1
          \<and> rejected (system_run cfg sched fresh)
              = length (handlers (system_run cfg sched fresh)) - 1"
    using a by (intro one_accepted) simp_all
  then show "holders (system_run cfg sched fresh) = 1"
    and "rejected (system_run cfg sched fresh)
              = length (handlers (system_run cfg sched fresh)) - 1"
    by simp_all
qed

theorem sniping_lock_single_flight_witness:
  "holders (system_run \<lparr>MIN_LIQUIDITY_BNB = 0, etherNumber = (\<lambda>w. of_int w / 10 ^ 18),
        name_keywords = [], toLowerCase = ascii_lower, spend = ''0.0005'', rpcProviders_length = 1\<rparr>
     [PairCreated WBNB ''0xA'', PairCreated ''0xB'' WBNB, PairCreated WBNB ''0xC'',
      Resume 0 (ReservesResult (Returns (5, 7))), Resume 1 (ReservesResult (Returns (5, 7))),
      Resume 2 (ReservesResult (Returns (5, 7))),
      Resume 0 (TokenInfoResult (Some (''Rocket'', ''RKT''))),
      Resume 1 (TokenInfoResult (Some (''Cat'', ''CAT''))),
      Resume 2 (TokenInfoResult (Some (''Dog'', ''DOG''))),
      Resume 1 TimerFired, Resume 0 TimerFired, Resume 2 TimerFired] fresh) = 1
   \<and> rejected (system_run \<lparr>MIN_LIQUIDITY_BNB = 0, etherNumber = (\<lambda>w. of_int w / 10 ^ 18),
        name_keywords = [], toLowerCase = ascii_lower, spend = ''0.0005'', rpcProviders_length = 1\<rparr>
     [PairCreated WBNB ''0xA'', PairCreated ''0xB'' WBNB, PairCreated WBNB ''0xC'',
      Resume 0 (ReservesResult (Returns (5, 7))), Resume 1 (ReservesResult (Returns (5, 7))),
      Resume 2 (ReservesResult (Returns (5, 7))),
      Resume 0 (TokenInfoResult (Some (''Rocket'', ''RKT''))),
      Resume 1 (TokenInfoResult (Some (''Cat'', ''CAT''))),
      Resume 2 (TokenInfoResult (Some (''Dog'', ''DOG''))),
      Resume 1 TimerFired, Resume 0 TimerFired, Resume 2 TimerFired] fresh) = 2"
proof -
  let ?cfg = "\<lparr>MIN_LIQUIDITY_BNB = 0, etherNumber = (\<lambda>w. of_int w / 10 ^ 18),
        name_keywords = [], toLowerCase = ascii_lower, spend = ''0.0005'', rpcProviders_length = 1\<rparr>"
  let ?sched = "[PairCreated WBNB ''0xA'', PairCreated ''0xB'' WBNB, PairCreated WBNB ''0xC'',
      Resume 0 (ReservesResult (Returns (5, 7))), Resume 1 (ReservesResult (Returns (5, 7))),
      Resume 2 (ReservesResult (Returns (5, 7))),
      Resume 0 (TokenInfoResult (Some (''Rocket'', ''RKT''))),
      Resume 1 (TokenInfoResult (Some (''Cat'', ''CAT''))),
      Resume 2 (TokenInfoResult (Some (''Dog'', ''DOG''))),
      Resume 1 TimerFired, Resume 0 TimerFired, Resume 2 TimerFired]"
  let ?final = "\<lparr>isSnipingActive = True, currentTargetToken = Some ''0xB'', exited = None,
       handlers = [\<lparr>pc = Busy, token0 = WBNB, token1 = ''0xA''\<rparr>,
                   \<lparr>pc = AwaitSwap, token0 = ''0xB'', token1 = WBNB\<rparr>,
                   \<lparr>pc = Busy, token0 = WBNB, token1 = ''0xC''\<rparr>]\<rparr>"
  have final: "system_run ?cfg ?sched fresh = ?final"
    by code_simp
  have no_release: "\<forall>a \<in> set ?sched. \<not> is_release a"
    by (simp add: is_release_def)
  have some: "handlers ?final \<noteq> []"
    by simp
  have settled: "\<forall>h \<in> set (handlers ?final). \<not> pending h \<and> pc h \<noteq> Filtered"
    by (simp add: pending_def)
  have "holders (system_run ?cfg ?sched fresh) = 1
      \<and> rejected (system_run ?cfg ?sched fresh) = length (handlers (system_run ?cfg ?sched fresh)) - 1"
    using sniping_lock_single_flight [of ?cfg ?sched] no_release some settled
    unfolding final by blast
  then show ?thesis
    unfolding final by simp
qed

text \<open>Two single steps: a contender is turned away by a taken lock, and takes a free one.\<close>

lemma sniping_lock_steps:
  "system_step \<lparr>MIN_LIQUIDITY_BNB = 0, etherNumber = (\<lambda>w. of_int w / 10 ^ 18),
        name_keywords = [], toLowerCase = ascii_lower, spend = ''0.0005'', rpcProviders_length = 1\<rparr> (Resume 1 TimerFired)
      \<lparr>isSnipingActive = True, currentTargetToken = Some ''0xB'', exited = None,
        handlers = [\<lparr>pc = AwaitSwap, token0 = ''0xB'', token1 = WBNB\<rparr>,
                    \<lparr>pc = AwaitSleep, token0 = WBNB, token1 = ''0xC''\<rparr>]\<rparr>
    = \<lparr>isSnipingActive = True, currentTargetToken = Some ''0xB'', exited = None,
        handlers = [\<lparr>pc = AwaitSwap, token0 = ''0xB'', token1 = WBNB\<rparr>,
                    \<lparr>pc = Busy, token0 = WBNB, token1 = ''0xC''\<rparr>]\<rparr>
   \<and> system_step \<lparr>MIN_LIQUIDITY_BNB = 0, etherNumber = (\<lambda>w. of_int w / 10 ^ 18),
        name_keywords = [], toLowerCase = ascii_lower, spend = ''0.0005'', rpcProviders_length = 1\<rparr> (Resume 0 TimerFired)
      \<lparr>isSnipingActive = False, currentTargetToken = None, exited = None,
        handlers = [\<lparr>pc = AwaitSleep, token0 = WBNB, token1 = ''0xC''\<rparr>]\<rparr>
    = \<lparr>isSnipingActive = True, currentTargetToken = Some ''0xC'', exited = None,
        handlers = [\<lparr>pc = AwaitSwap, token0 = WBNB, token1 = ''0xC''\<rparr>]\<rparr>"
  by code_simp

section \<open>Properties of the start of the process\<close>



lemma absent_spend_amount_passes_check:
  "env ''SEND_BNB'' = None \<Longrightarrow> sendBNB env = ''undefined'' \<and> sendBNB env \<noteq> []"
  by (simp add: sendBNB_def)




section \<open>The invariant of the sell monitor\<close>

lemma set_tick_fields [simp]:
  "ticks (set_tick i t m) = (ticks m)[i := t]"
  "sold (set_tick i t m) = sold m"
  "interval (set_tick i t m) = interval m"
  "reasons (set_tick i t m) = reasons m"
  "broadcasts (set_tick i t m) = broadcasts m"
  "approvals (set_tick i t m) = approvals m"
  "isSnipingActive (set_tick i t m) = isSnipingActive m"
  "currentTargetToken (set_tick i t m) = currentTargetToken m"
  by (simp_all add: set_tick_def)

lemma sellers_set_tick:
  "i < length (ticks m) \<Longrightarrow>
   sellers (set_tick i t m) + (if selling (ticks m ! i) then 1 else 0)
     = sellers m + (if selling t then 1 else 0)"
  using filter_update_count [of i "ticks m" selling t] by (simp add: sellers_def)

lemma submitters_set_tick:
  "i < length (ticks m) \<Longrightarrow>
   submitters (set_tick i t m) + (if submitting (ticks m ! i) then 1 else 0)
     = submitters m + (if submitting t then 1 else 0)"
  using filter_update_count [of i "ticks m" submitting t] by (simp add: submitters_def)

lemma sellers_pos:
  "i < length (ticks m) \<Longrightarrow> selling (ticks m ! i) \<Longrightarrow> 0 < sellers m"
  unfolding sellers_def by (metis filter_empty_conv length_greater_0_conv nth_mem)

lemma submitters_pos:
  "i < length (ticks m) \<Longrightarrow> submitting (ticks m ! i) \<Longrightarrow> 0 < submitters m"
  unfolding submitters_def by (metis filter_empty_conv length_greater_0_conv nth_mem)

text \<open>A tick moves between two awaits outside of \<^verbatim>\<open>executeSell\<close>.\<close>

lemma inv_move_idle:
  assumes "monitor_inv m" "i < length (ticks m)"
    "\<not> selling (ticks m ! i)" "\<not> submitting (ticks m ! i)" "\<not> selling t" "\<not> submitting t"
  shows "monitor_inv (set_tick i t m)"
  using assms sellers_set_tick [of i m t] submitters_set_tick [of i m t]
  by (auto simp: monitor_inv_def)

lemma inv_executeSell:
  assumes "monitor_inv m" "i < length (ticks m)"
    "\<not> selling (ticks m ! i)" "\<not> submitting (ticks m ! i)"
  shows "monitor_inv (executeSell reason c i m)"
proof (cases "sold m")
  case True
  with assms inv_move_idle [of m i TickDone] show ?thesis
    by (simp add: executeSell_def selling_def submitting_def)
next
  case False
  let ?m = "m\<lparr>interval := False, sold := True, reasons := reasons m @ [reason]\<rparr>"
  have z: "sellers m = 0" "submitters m = 0" "broadcasts m = []" "reasons m = []"
    using assms(1) False by (simp_all add: monitor_inv_def)
  have "sellers (set_tick i (AwaitApprove c) ?m) + (if selling (ticks ?m ! i) then 1 else 0)
      = sellers ?m + (if selling (AwaitApprove c) then 1 else 0)"
    using assms(2) by (intro sellers_set_tick) simp
  moreover have "sellers ?m = sellers m" by (simp add: sellers_def)
  ultimately have "sellers (set_tick i (AwaitApprove c) ?m) = 1"
    using assms(3) z by (simp add: selling_def)
  with False z show ?thesis
    by (simp add: executeSell_def monitor_inv_def)
qed

text \<open>The invariant reads five fields only.\<close>

lemma inv_cong:
  assumes "monitor_inv m" "ticks m' = ticks m" "sold m' = sold m" "interval m' = interval m"
    "broadcasts m' = broadcasts m" "reasons m' = reasons m"
  shows "monitor_inv m'"
  using assms by (simp add: monitor_inv_def sellers_def submitters_def)

lemma sold_if_selling:
  "monitor_inv m \<Longrightarrow> i < length (ticks m) \<Longrightarrow> selling (ticks m ! i) \<Longrightarrow> sold m"
  using sellers_pos [of i m] by (auto simp: monitor_inv_def)

lemma sold_if_submitting:
  "monitor_inv m \<Longrightarrow> i < length (ticks m) \<Longrightarrow> submitting (ticks m ! i) \<Longrightarrow> sold m"
  using submitters_pos [of i m] by (auto simp: monitor_inv_def)

text \<open>A tick inside \<^verbatim>\<open>executeSell\<close> moves on, still before the broadcast.\<close>

lemma inv_move_selling:
  assumes "monitor_inv m" "i < length (ticks m)" "selling (ticks m ! i)" "selling t"
  shows "monitor_inv (set_tick i t m)"
proof -
  have s: "sold m" using assms sold_if_selling by blast
  have "sellers (set_tick i t m) = sellers m"
    using sellers_set_tick [of i m t] assms by simp
  with assms(1) s show ?thesis by (simp add: monitor_inv_def)
qed

text \<open>A tick inside \<^verbatim>\<open>executeSell\<close> leaves it before the broadcast.\<close>

lemma inv_leave_selling:
  assumes "monitor_inv m" "i < length (ticks m)" "selling (ticks m ! i)" "\<not> selling t"
  shows "monitor_inv (set_tick i t m)"
proof -
  have s: "sold m" using assms sold_if_selling by blast
  have "sellers (set_tick i t m) + 1 = sellers m"
    using sellers_set_tick [of i m t] assms by simp
  with assms(1) s show ?thesis by (simp add: monitor_inv_def)
qed

text \<open>The call of \<^verbatim>\<open>submitRawTx\<close>: one seller less, one broadcast more.\<close>

lemma inv_broadcast:
  assumes "monitor_inv m" "i < length (ticks m)" "selling (ticks m ! i)"
  shows "monitor_inv (set_tick i (AwaitSubmit c n) (m\<lparr>broadcasts := broadcasts m @ [tx]\<rparr>))"
proof -
  let ?m = "m\<lparr>broadcasts := broadcasts m @ [tx]\<rparr>"
  have s: "sold m" using assms sold_if_selling by blast
  have "sellers (set_tick i (AwaitSubmit c n) ?m) + (if selling (ticks ?m ! i) then 1 else 0)
      = sellers ?m + (if selling (AwaitSubmit c n) then 1 else 0)"
    using assms(2) by (intro sellers_set_tick) simp
  moreover have "sellers ?m = sellers m" by (simp add: sellers_def)
  ultimately have less: "sellers (set_tick i (AwaitSubmit c n) ?m) + 1 = sellers m"
    using assms by (simp add: selling_def)
  have "sellers m + length (broadcasts m) \<le> 1"
    using assms(1) s by (simp add: monitor_inv_def)
  with less have "sellers (set_tick i (AwaitSubmit c n) ?m) = 0" "length (broadcasts m) = 0"
    by linarith+
  then have "sellers (set_tick i (AwaitSubmit c n) ?m) = 0" "broadcasts m = []"
    by simp_all
  with assms(1) s show ?thesis by (simp add: monitor_inv_def)
qed

text \<open>The end of \<^verbatim>\<open>executeSell\<close> after the broadcast.\<close>

lemma inv_after_submit:
  assumes "monitor_inv m" "i < length (ticks m)" "submitting (ticks m ! i)"
  shows "monitor_inv (set_tick i TickDone m)"
proof -
  have s: "sold m" using assms sold_if_submitting by blast
  have ns: "\<not> selling (ticks m ! i)"
    using assms(3) by (cases "ticks m ! i") (simp_all add: selling_def submitting_def)
  have "sellers (set_tick i TickDone m) = sellers m"
    using sellers_set_tick [of i m TickDone] assms(2) ns by (simp add: selling_def)
  with assms(1) s show ?thesis by (simp add: monitor_inv_def)
qed

lemma inv_sell_failed:
  assumes "monitor_inv m" "i < length (ticks m)" "selling (ticks m ! i) \<or> submitting (ticks m ! i)"
  shows "monitor_inv (sell_failed i m)"
proof -
  have s: "sold m" using assms sold_if_selling sold_if_submitting by blast
  have m': "monitor_inv ((unlock m)\<lparr>sold := True\<rparr>)"
    using s by (intro inv_cong [OF assms(1)]) (simp_all add: unlock_def)
  have t: "ticks ((unlock m)\<lparr>sold := True\<rparr>) = ticks m" by (simp add: unlock_def)
  show ?thesis
    unfolding sell_failed_def
    using assms(3)
  proof
    assume "selling (ticks m ! i)"
    then show "monitor_inv (set_tick i TickDone ((unlock m)\<lparr>sold := True\<rparr>))"
      using assms(2) t by (intro inv_leave_selling [OF m']) (simp_all add: selling_def)
  next
    assume "submitting (ticks m ! i)"
    then show "monitor_inv (set_tick i TickDone ((unlock m)\<lparr>sold := True\<rparr>))"
      using assms(2) t by (intro inv_after_submit [OF m']) simp_all
  qed
qed

lemma inv_fire: "monitor_inv m \<Longrightarrow> monitor_inv (fire cfg p m)"
  by (auto simp: fire_def monitor_inv_def sellers_def submitters_def selling_def submitting_def)

lemma inv_highest: "monitor_inv m \<Longrightarrow> monitor_inv (m\<lparr>highestPriceSeen := x\<rparr>)"
  by (simp add: monitor_inv_def sellers_def submitters_def)

lemma inv_resume_tick:
  assumes inv: "monitor_inv m" and i: "i < length (ticks m)"
  shows "monitor_inv (resume_tick cfg p i (ticks m ! i) input m)"
proof (cases "ticks m ! i")
  case AwaitLiquidity
  then have idle: "\<not> selling (ticks m ! i)" "\<not> submitting (ticks m ! i)"
    by (simp_all add: selling_def submitting_def)
  show ?thesis
  proof (cases input)
    case (ReservesCall result)
    have "monitor_inv (set_tick i AwaitPrice m)"
      using inv_move_idle [OF inv i idle] by (simp add: selling_def submitting_def)
    moreover have "monitor_inv (executeSell liquidity_reason LiquidityCheck i m)"
      by (rule inv_executeSell [OF inv i idle])
    ultimately show ?thesis
      using AwaitLiquidity ReservesCall
      by (auto simp: Let_def split: outcome.splits prod.splits)
  qed (use inv AwaitLiquidity in simp_all)
next
  case AwaitPrice
  then have idle: "\<not> selling (ticks m ! i)" "\<not> submitting (ticks m ! i)"
    by (simp_all add: selling_def submitting_def)
  show ?thesis
  proof (cases input)
    case (PriceCalls g)
    have gen: "monitor_inv (set_tick i TickDone m') \<and> monitor_inv (executeSell profit_reason ProfitCheck i m')"
      if "monitor_inv m'" "ticks m' = ticks m" for m'
      using inv_move_idle [of m' i TickDone] inv_executeSell [of m' i profit_reason ProfitCheck]
        that i idle
      by (simp add: selling_def submitting_def)
    have a: "monitor_inv (set_tick i TickDone m)"
      "monitor_inv (executeSell profit_reason ProfitCheck i m)"
      using gen [of m] inv by simp_all
    have b: "monitor_inv (set_tick i TickDone (m\<lparr>highestPriceSeen := x\<rparr>))"
      "monitor_inv (executeSell profit_reason ProfitCheck i (m\<lparr>highestPriceSeen := x\<rparr>))" for x
      using gen [of "m\<lparr>highestPriceSeen := x\<rparr>"] inv_highest [OF inv] by simp_all
    show ?thesis
      using AwaitPrice PriceCalls a b by (simp add: Let_def)
  qed (use inv AwaitPrice in simp_all)
next
  case (AwaitApprove c)
  then have sel: "selling (ticks m ! i)" by (simp add: selling_def)
  show ?thesis
  proof (cases input)
    case (ApproveCalls chain)
    obtain sent result where ap: "approveToken chain (tokenBalance p) = (sent, result)"
      by (cases "approveToken chain (tokenBalance p)")
    have m': "monitor_inv (m\<lparr>approvals := approvals m @ sent\<rparr>)"
      by (rule inv_cong [OF inv]) simp_all
    have stay: "monitor_inv (set_tick i (AwaitNonce c) (m\<lparr>approvals := approvals m @ sent\<rparr>))"
      using i sel by (intro inv_move_selling [OF m']) (simp_all add: selling_def)
    have leave: "monitor_inv (set_tick i t (m\<lparr>approvals := approvals m @ sent\<rparr>))"
      if "\<not> selling t" for t
      using i sel that by (intro inv_leave_selling [OF m']) simp_all
    show ?thesis
      using AwaitApprove ApproveCalls ap stay leave [of AwaitPrice] leave [of TickCrashed]
      by (cases result; cases c) (simp_all add: selling_def)
  qed (use inv AwaitApprove in simp_all)
next
  case (AwaitNonce c)
  then have sel: "selling (ticks m ! i)" by (simp add: selling_def)
  show ?thesis
  proof (cases input)
    case (NonceCall result)
    have m': "monitor_inv (m\<lparr>currentNonce := n\<rparr>)" for n
      by (rule inv_cong [OF inv]) simp_all
    have stay: "monitor_inv (set_tick i (AwaitPopulate c n) (m\<lparr>currentNonce := n\<rparr>))" for n
      using i sel by (intro inv_move_selling [OF m']) (simp_all add: selling_def)
    have fail: "monitor_inv (sell_failed i m)"
      using inv i sel by (intro inv_sell_failed) simp_all
    show ?thesis
      using AwaitNonce NonceCall stay fail by (cases result) simp_all
  qed (use inv AwaitNonce in simp_all)
next
  case (AwaitPopulate c n)
  then have sel: "selling (ticks m ! i)" by (simp add: selling_def)
  show ?thesis
  proof (cases input)
    case (PopulateCall result)
    have stay: "monitor_inv (set_tick i (AwaitSign c n) m)"
      using i sel by (intro inv_move_selling [OF inv]) (simp_all add: selling_def)
    have fail: "monitor_inv (sell_failed i m)"
      using inv i sel by (intro inv_sell_failed) simp_all
    show ?thesis
      using AwaitPopulate PopulateCall stay fail by (cases result) simp_all
  qed (use inv AwaitPopulate in simp_all)
next
  case (AwaitSign c n)
  then have sel: "selling (ticks m ! i)" by (simp add: selling_def)
  show ?thesis
  proof (cases input)
    case (SignCall result)
    have go: "monitor_inv (set_tick i (AwaitSubmit c n)
        (m\<lparr>broadcasts := broadcasts m @ [\<lparr>sell_amountIn = tokenBalance p, sell_nonce = n\<rparr>]\<rparr>))"
      by (rule inv_broadcast [OF inv i sel])
    have fail: "monitor_inv (sell_failed i m)"
      using inv i sel by (intro inv_sell_failed) simp_all
    show ?thesis
      using AwaitSign SignCall go fail by (cases result) simp_all
  qed (use inv AwaitSign in simp_all)
next
  case (AwaitSubmit c n)
  then have sub: "submitting (ticks m ! i)" by (simp add: submitting_def)
  have s: "sold m"
    using inv i sub submitters_pos [of i m] by (auto simp: monitor_inv_def)
  show ?thesis
  proof (cases input)
    case (BroadcastRaces races)
    have fail: "monitor_inv (sell_failed i m)"
      using inv i sub by (intro inv_sell_failed) simp_all
    have m': "monitor_inv (unlock (m\<lparr>currentNonce := currentNonce m + 1\<rparr>))"
      by (rule inv_cong [OF inv]) (simp_all add: unlock_def)
    have ok: "monitor_inv (sell_succeeded i m)"
      unfolding sell_succeeded_def
      using i sub by (intro inv_after_submit [OF m']) (simp_all add: unlock_def)
    show ?thesis
      using AwaitSubmit BroadcastRaces ok fail
      by (cases "submitRawTx_settled races") simp_all
  qed (use inv AwaitSubmit in simp_all)
next
  case TickDone
  with inv show ?thesis by simp
next
  case TickCrashed
  with inv show ?thesis by simp
qed

lemma inv_step: "monitor_inv m \<Longrightarrow> monitor_inv (monitor_step cfg p a m)"
  by (cases a) (simp_all add: monitor_step_def inv_fire inv_resume_tick)

lemma inv_run: "monitor_inv m \<Longrightarrow> monitor_inv (monitor_run cfg p sched m)"
  by (induction sched arbitrary: m) (simp_all add: inv_step)

lemma inv_start: "monitor_inv (start_monitor token nonce p)"
  by (simp add: monitor_inv_def start_monitor_def sellers_def submitters_def)

section \<open>Properties of the sell monitor\<close>

lemma executeSell_sold:
  "sold m \<Longrightarrow> executeSell reason c i m = set_tick i TickDone m"
  by (simp add: executeSell_def)

lemma sold_kept_resume:
  assumes "sold m"
  shows "sold (resume_tick cfg p i t input m) \<and> reasons (resume_tick cfg p i t input m) = reasons m"
proof (cases t)
  case AwaitLiquidity
  with assms show ?thesis
    by (cases input) (auto simp: executeSell_sold Let_def split: outcome.splits prod.splits)
next
  case AwaitPrice
  with assms show ?thesis
    by (cases input) (auto simp: executeSell_sold Let_def)
next
  case (AwaitApprove c)
  with assms show ?thesis
    by (cases input) (auto split: outcome.splits prod.splits)
next
  case (AwaitNonce c)
  with assms show ?thesis
    by (cases input) (auto simp: sell_failed_def unlock_def split: outcome.splits)
next
  case (AwaitPopulate c n)
  with assms show ?thesis
    by (cases input) (auto simp: sell_failed_def unlock_def split: outcome.splits)
next
  case (AwaitSign c n)
  with assms show ?thesis
    by (cases input) (auto simp: sell_failed_def unlock_def split: outcome.splits)
next
  case (AwaitSubmit c n)
  with assms show ?thesis
    by (cases input)
      (auto simp: sell_failed_def sell_succeeded_def unlock_def split: outcome.splits)
next
  case TickDone
  with assms show ?thesis by simp
next
  case TickCrashed
  with assms show ?thesis by simp
qed

lemma sold_kept_step:
  "sold m \<Longrightarrow> sold (monitor_step cfg p a m) \<and> reasons (monitor_step cfg p a m) = reasons m"
  by (cases a) (auto simp: monitor_step_def fire_def sold_kept_resume)

lemma sold_kept_run:
  "sold m \<Longrightarrow> sold (monitor_run cfg p sched m) \<and> reasons (monitor_run cfg p sched m) = reasons m"
proof (induction sched arbitrary: m)
  case Nil
  then show ?case by simp
next
  case (Cons a sched)
  from sold_kept_step [OF Cons.prems, of cfg p a]
  have s: "sold (monitor_step cfg p a m)" and r: "reasons (monitor_step cfg p a m) = reasons m"
    by simp_all
  from Cons.IH [OF s] r show ?case by simp
qed

lemma fire_cancelled: "\<not> interval m \<Longrightarrow> monitor_step cfg p Fire m = m"
  by (simp add: monitor_step_def fire_def)

text \<open>
  Claim C3. Whatever the order in which the timer fires and the pending calls of the
  ticks settle, the monitor hands at most one sell transaction to the broadcaster. Once
  \<open>sold\<close> is set the timer is cancelled and starts no further tick. A call of
  \<^verbatim>\<open>executeSell\<close> that finds \<open>sold\<close> unset sets it and cancels the timer in the same
  segment, before its first await; a call that finds it set returns at once. Neither
  broadcasts.
\<close>

theorem at_most_one_sell:
  "length (broadcasts (monitor_run cfg p sched (start_monitor token nonce p))) \<le> 1
   \<and> (sold (monitor_run cfg p sched (start_monitor token nonce p)) \<longrightarrow>
        \<not> interval (monitor_run cfg p sched (start_monitor token nonce p))
        \<and> monitor_step cfg p Fire (monitor_run cfg p sched (start_monitor token nonce p))
            = monitor_run cfg p sched (start_monitor token nonce p))
   \<and> (\<not> sold m \<longrightarrow> sold (executeSell reason c i m) \<and> \<not> interval (executeSell reason c i m)
        \<and> broadcasts (executeSell reason c i m) = broadcasts m)
   \<and> (sold m \<longrightarrow> executeSell reason c i m = set_tick i TickDone m
        \<and> broadcasts (executeSell reason c i m) = broadcasts m)"
proof (intro conjI impI)
  let ?m = "monitor_run cfg p sched (start_monitor token nonce p)"
  have inv: "monitor_inv ?m"
    by (rule inv_run [OF inv_start])
  show "length (broadcasts ?m) \<le> 1"
    using inv by (cases "sold ?m") (simp_all add: monitor_inv_def)
  {
    assume "sold ?m"
    with inv show "\<not> interval ?m" by (simp add: monitor_inv_def)
    then show "monitor_step cfg p Fire ?m = ?m" by (rule fire_cancelled)
  }
next
  assume "\<not> sold m"
  then show "sold (executeSell reason c i m)" "\<not> interval (executeSell reason c i m)"
    "broadcasts (executeSell reason c i m) = broadcasts m"
    by (simp_all add: executeSell_def)
next
  assume "sold m"
  then show "executeSell reason c i m = set_tick i TickDone m"
    "broadcasts (executeSell reason c i m) = broadcasts m"
    by (simp_all add: executeSell_def)
qed

lemma reasons_differ: "liquidity_reason \<noteq> profit_reason"
  by (simp add: liquidity_reason_def profit_reason_def)

lemma run_append:
  "monitor_run cfg p (xs @ ys) m = monitor_run cfg p ys (monitor_run cfg p xs m)"
  by (induction xs arbitrary: m) simp_all

lemma trace_first: "m \<in> set (monitor_trace cfg p sched m)"
  by (cases sched) simp_all

lemma trace_append:
  "set (monitor_trace cfg p (xs @ ys) m)
     = set (monitor_trace cfg p xs m) \<union> set (monitor_trace cfg p ys (monitor_run cfg p xs m))"
proof (induction xs arbitrary: m)
  case Nil
  show ?case using trace_first [of m cfg p ys] by auto
next
  case (Cons a xs)
  then show ?case by simp
qed

lemma two_sellers:
  assumes "i < length (ticks m)" "j < length (ticks m)" "i \<noteq> j"
    "selling (ticks m ! i)" "selling (ticks m ! j)"
  shows "2 \<le> sellers m"
proof -
  have "sellers (set_tick j TickDone m) + 1 = sellers m"
    using sellers_set_tick [of j m TickDone] assms by (simp add: selling_def)
  moreover have "0 < sellers (set_tick j TickDone m)"
    using assms by (intro sellers_pos [of i]) simp_all
  ultimately show ?thesis by linarith
qed

text \<open>While one tick sells, or after the broadcast, no other tick is inside the sale.\<close>

lemma others_idle:
  assumes "monitor_inv m" "sold m" "i < length (ticks m)"
    "selling (ticks m ! i) \<or> broadcasts m \<noteq> []" "j < length (ticks m)" "j \<noteq> i"
  shows "\<not> selling (ticks m ! j)"
proof
  assume j: "selling (ticks m ! j)"
  have le: "sellers m + length (broadcasts m) \<le> 1"
    using assms(1,2) by (simp add: monitor_inv_def)
  have "0 < sellers m"
    using assms(5) j by (rule sellers_pos)
  with le have "broadcasts m = []" by (cases "broadcasts m") simp_all
  with assms(4) have "selling (ticks m ! i)" by simp
  with assms j have "2 \<le> sellers m"
    by (intro two_sellers [of i m j]) simp_all
  with le show False by simp
qed

lemma resume_tick_idle:
  assumes "sold m" "\<not> selling t" "j \<noteq> i"
  shows "sold (resume_tick cfg p j t input m)
       \<and> broadcasts (resume_tick cfg p j t input m) = broadcasts m
       \<and> reasons (resume_tick cfg p j t input m) = reasons m
       \<and> length (ticks (resume_tick cfg p j t input m)) = length (ticks m)
       \<and> ticks (resume_tick cfg p j t input m) ! i = ticks m ! i"
proof (cases t)
  case AwaitLiquidity
  with assms show ?thesis
    by (cases input) (auto simp: executeSell_sold Let_def split: outcome.splits prod.splits)
next
  case AwaitPrice
  with assms show ?thesis
    by (cases input) (auto simp: executeSell_sold Let_def)
next
  case (AwaitApprove c)
  with assms show ?thesis by (simp add: selling_def)
next
  case (AwaitNonce c)
  with assms show ?thesis by (simp add: selling_def)
next
  case (AwaitPopulate c n)
  with assms show ?thesis by (simp add: selling_def)
next
  case (AwaitSign c n)
  with assms show ?thesis by (simp add: selling_def)
next
  case (AwaitSubmit c n)
  with assms show ?thesis
    by (cases input)
      (auto simp: sell_failed_def sell_succeeded_def unlock_def split: outcome.splits)
next
  case TickDone
  with assms show ?thesis by simp
next
  case TickCrashed
  with assms show ?thesis by simp
qed

lemma other_step:
  assumes st: "sale_stage i t sent m" and on: "selling t \<or> sent \<noteq> []" and a: "not_for i a"
  shows "sale_stage i t sent (monitor_step cfg p a m)"
proof (cases a)
  case Fire
  from st have "\<not> interval m" by (simp add: sale_stage_def monitor_inv_def)
  with Fire st show ?thesis by (simp add: fire_cancelled)
next
  case (Settle j input)
  with a have ji: "j \<noteq> i" by (simp add: not_for_def)
  show ?thesis
  proof (cases "j < length (ticks m)")
    case False
    with Settle st show ?thesis by (simp add: monitor_step_def)
  next
    case True
    from st on have "selling (ticks m ! i) \<or> broadcasts m \<noteq> []"
      by (auto simp: sale_stage_def)
    with st True ji have idle: "\<not> selling (ticks m ! j)"
      by (intro others_idle [of m i j]) (simp_all add: sale_stage_def)
    from st have s: "sold m" by (simp add: sale_stage_def)
    have step: "monitor_step cfg p a m = resume_tick cfg p j (ticks m ! j) input m"
      using Settle True by (simp add: monitor_step_def)
    have inv: "monitor_inv (monitor_step cfg p a m)"
      using st by (intro inv_step) (simp add: sale_stage_def)
    from resume_tick_idle [OF s idle ji, of cfg p input] inv st show ?thesis
      unfolding step by (simp add: sale_stage_def)
  qed
qed

lemma other_run:
  assumes "sale_stage i t sent m" "selling t \<or> sent \<noteq> []" "list_all (not_for i) others"
  shows "sale_stage i t sent (monitor_run cfg p others m)
       \<and> (\<forall>s \<in> set (monitor_trace cfg p others m). ticks s ! i = t)"
  using assms
proof (induction others arbitrary: m)
  case Nil
  then show ?case by (simp add: sale_stage_def)
next
  case (Cons a others)
  from Cons.prems have here: "ticks m ! i = t" by (simp add: sale_stage_def)
  from Cons.prems have "sale_stage i t sent (monitor_step cfg p a m)"
    by (intro other_step) simp_all
  with Cons.IH [of "monitor_step cfg p a m"] Cons.prems here show ?case by simp
qed

lemma stage_enter:
  assumes "monitor_inv m" "\<not> sold m" "i < length (ticks m)" "ticks m ! i = AwaitLiquidity"
    "etherNumber cfg (if tokenIsToken1 p then r0 else r1) * 2 < MIN_LIQUIDITY_BNB cfg"
  shows "sale_stage i (AwaitApprove LiquidityCheck) []
           (monitor_step cfg p (Settle i (ReservesCall (Returns (r0, r1)))) m)
       \<and> \<not> interval (monitor_step cfg p (Settle i (ReservesCall (Returns (r0, r1)))) m)"
proof -
  let ?m' = "monitor_step cfg p (Settle i (ReservesCall (Returns (r0, r1)))) m"
  have none: "reasons m = []" "broadcasts m = []"
    using assms(1,2) by (simp_all add: monitor_inv_def)
  have step: "?m' = executeSell liquidity_reason LiquidityCheck i m"
    using assms by (simp add: monitor_step_def Let_def)
  have "monitor_inv ?m'"
    using assms(1) by (rule inv_step)
  then show ?thesis
    using assms(2,3) none unfolding step by (simp add: sale_stage_def executeSell_def)
qed

lemma stage_approve:
  assumes "sale_stage i (AwaitApprove c) sent m"
    "snd (approveToken chain (tokenBalance p)) = Returns ()"
  shows "sale_stage i (AwaitNonce c) sent (monitor_step cfg p (Settle i (ApproveCalls chain)) m)"
proof -
  have inv: "monitor_inv (monitor_step cfg p (Settle i (ApproveCalls chain)) m)"
    using assms(1) by (intro inv_step) (simp add: sale_stage_def)
  obtain amounts where "approveToken chain (tokenBalance p) = (amounts, Returns ())"
    using assms(2) by (cases "approveToken chain (tokenBalance p)") simp
  with assms(1) inv show ?thesis
    by (simp add: sale_stage_def monitor_step_def)
qed

lemma stage_nonce:
  assumes "sale_stage i (AwaitNonce c) sent m"
  shows "sale_stage i (AwaitPopulate c n) sent
           (monitor_step cfg p (Settle i (NonceCall (Returns n))) m)"
proof -
  have "monitor_inv (monitor_step cfg p (Settle i (NonceCall (Returns n))) m)"
    using assms by (intro inv_step) (simp add: sale_stage_def)
  with assms show ?thesis
    by (simp add: sale_stage_def monitor_step_def)
qed

lemma stage_populate:
  assumes "sale_stage i (AwaitPopulate c n) sent m"
  shows "sale_stage i (AwaitSign c n) sent
           (monitor_step cfg p (Settle i (PopulateCall (Returns ()))) m)"
proof -
  have "monitor_inv (monitor_step cfg p (Settle i (PopulateCall (Returns ()))) m)"
    using assms by (intro inv_step) (simp add: sale_stage_def)
  with assms show ?thesis
    by (simp add: sale_stage_def monitor_step_def)
qed

lemma stage_sign:
  assumes "sale_stage i (AwaitSign c n) sent m"
  shows "sale_stage i (AwaitSubmit c n)
           (sent @ [\<lparr>sell_amountIn = tokenBalance p, sell_nonce = n\<rparr>])
           (monitor_step cfg p (Settle i (SignCall (Returns ()))) m)"
proof -
  have "monitor_inv (monitor_step cfg p (Settle i (SignCall (Returns ()))) m)"
    using assms by (intro inv_step) (simp add: sale_stage_def)
  with assms show ?thesis
    by (simp add: sale_stage_def monitor_step_def)
qed

lemma stage_submit:
  assumes "sale_stage i (AwaitSubmit c n) sent m"
  shows "sale_stage i TickDone sent (monitor_step cfg p (Settle i (BroadcastRaces races)) m)"
proof -
  have "monitor_inv (monitor_step cfg p (Settle i (BroadcastRaces races)) m)"
    using assms by (intro inv_step) (simp add: sale_stage_def)
  with assms show ?thesis
    by (cases "submitRawTx_settled races")
      (simp_all add: sale_stage_def monitor_step_def sell_failed_def sell_succeeded_def
        unlock_def)
qed

lemma ended_step:
  assumes st: "sale_stage i TickDone sent m" and on: "sent \<noteq> []"
  shows "sale_stage i TickDone sent (monitor_step cfg p a m)"
proof (cases "not_for i a")
  case True
  with st on show ?thesis by (intro other_step) simp_all
next
  case False
  then obtain input where "a = Settle i input"
    by (cases a) (simp_all add: not_for_def)
  with st have "monitor_step cfg p a m = m"
    by (simp add: monitor_step_def sale_stage_def)
  with st show ?thesis by simp
qed

lemma ended_run:
  assumes "sale_stage i TickDone sent m" "sent \<noteq> []"
  shows "sale_stage i TickDone sent (monitor_run cfg p later m)
       \<and> (\<forall>s \<in> set (monitor_trace cfg p later m). ticks s ! i = TickDone)"
  using assms
proof (induction later arbitrary: m)
  case Nil
  then show ?case by (simp add: sale_stage_def)
next
  case (Cons a later)
  from Cons.prems have here: "ticks m ! i = TickDone" by (simp add: sale_stage_def)
  from Cons.prems have "sale_stage i TickDone sent (monitor_step cfg p a m)"
    by (intro ended_step) simp_all
  with Cons.IH [of "monitor_step cfg p a m"] Cons.prems here show ?case by simp
qed


text \<open>
  Claim C5 as stated fails when two ticks overlap. The first tick finds the liquidity
  at 20 BNB and waits for the price; the timer fires again. The reserves change to
  0.4 BNB against 10 tokens, so that the liquidity is 0.8 BNB, below the minimum of 1 BNB,
  and the price is four times the entry price, above the target. The first tick reads
  this price and enters the selling path with the profit reason. The second tick, which
  has not read anything yet, reads the reserves: both conditions hold on this tick, its
  call of \<^verbatim>\<open>executeSell\<close> returns at \<^verbatim>\<open>if (sold) return;\<close>, and the one sale that the
  monitor executes cites the profit reason.
\<close>

theorem profit_reason_on_liquidity_drop:
  "ticks (monitor_run
      \<lparr>MIN_LIQUIDITY_BNB = 1, etherNumber = (\<lambda>w. of_int w / 10 ^ 18), name_keywords = [],
        toLowerCase = ascii_lower, spend = ''0.0005'', rpcProviders_length = 1\<rparr>
      \<lparr>tokenIsToken1 = True, tokenBalance = 1000, initialPrice = 10 ^ 22,
        initialLiquidityBNB = 20\<rparr>
      [Fire, Settle 0 (ReservesCall (Returns (10 * 10 ^ 18, 1000 * 10 ^ 18))), Fire,
       Settle 0 (PriceCalls (\<lambda>i j. Some (4 * 10 ^ 17, 10 ^ 19)))]
      (start_monitor ''0xA'' 8 \<lparr>tokenIsToken1 = True, tokenBalance = 1000,
         initialPrice = 10 ^ 22, initialLiquidityBNB = 20\<rparr>))
     = [AwaitApprove ProfitCheck, AwaitLiquidity]
   \<and> etherNumber
        \<lparr>MIN_LIQUIDITY_BNB = 1, etherNumber = (\<lambda>w. of_int w / 10 ^ 18), name_keywords = [],
          toLowerCase = ascii_lower, spend = ''0.0005'', rpcProviders_length = 1\<rparr>
        (4 * 10 ^ 17) * 2 < 1
   \<and> targetPrice \<lparr>tokenIsToken1 = True, tokenBalance = 1000, initialPrice = 10 ^ 22,
        initialLiquidityBNB = 20\<rparr>
      \<le> getCurrentPriceFromReservesSafe (\<lambda>i j. Some (4 * 10 ^ 17, 10 ^ 19)) 1 True
   \<and> monitor_run
      \<lparr>MIN_LIQUIDITY_BNB = 1, etherNumber = (\<lambda>w. of_int w / 10 ^ 18), name_keywords = [],
        toLowerCase = ascii_lower, spend = ''0.0005'', rpcProviders_length = 1\<rparr>
      \<lparr>tokenIsToken1 = True, tokenBalance = 1000, initialPrice = 10 ^ 22,
        initialLiquidityBNB = 20\<rparr>
      [Fire, Settle 0 (ReservesCall (Returns (10 * 10 ^ 18, 1000 * 10 ^ 18))), Fire,
       Settle 0 (PriceCalls (\<lambda>i j. Some (4 * 10 ^ 17, 10 ^ 19))),
       Settle 1 (ReservesCall (Returns (4 * 10 ^ 17, 10 ^ 19))),
       Settle 0 (ApproveCalls \<lparr>allowance_call = Returns 0, approve_call = Returns (),
                  wait_call = Returns ()\<rparr>),
       Settle 0 (NonceCall (Returns 9)), Settle 0 (PopulateCall (Returns ())),
       Settle 0 (SignCall (Returns ())),
       Settle 0 (BroadcastRaces [Returns (Some ''0xsell'')])]
      (start_monitor ''0xA'' 8 \<lparr>tokenIsToken1 = True, tokenBalance = 1000,
         initialPrice = 10 ^ 22, initialLiquidityBNB = 20\<rparr>)
    = \<lparr>isSnipingActive = False, currentTargetToken = None, currentNonce = 10, sold = True,
        interval = False, highestPriceSeen = 4 * 10 ^ 22, ticks = [TickDone, TickDone],
        reasons = [profit_reason], approvals = [MaxUint256],
        broadcasts = [\<lparr>sell_amountIn = 1000, sell_nonce = 9\<rparr>]\<rparr>"
proof (intro conjI)
  let ?cfg = "\<lparr>MIN_LIQUIDITY_BNB = 1, etherNumber = (\<lambda>w. of_int w / 10 ^ 18),
        name_keywords = [], toLowerCase = ascii_lower, spend = ''0.0005'',
        rpcProviders_length = 1\<rparr>"
  let ?p = "\<lparr>tokenIsToken1 = True, tokenBalance = 1000, initialPrice = 10 ^ 22,
        initialLiquidityBNB = 20\<rparr>"
  show "ticks (monitor_run ?cfg ?p
      [Fire, Settle 0 (ReservesCall (Returns (10 * 10 ^ 18, 1000 * 10 ^ 18))), Fire,
       Settle 0 (PriceCalls (\<lambda>i j. Some (4 * 10 ^ 17, 10 ^ 19)))]
      (start_monitor ''0xA'' 8 ?p)) = [AwaitApprove ProfitCheck, AwaitLiquidity]"
    by code_simp
  show "etherNumber ?cfg (4 * 10 ^ 17) * 2 < 1"
    by simp
  show "targetPrice ?p
      \<le> getCurrentPriceFromReservesSafe (\<lambda>i j. Some (4 * 10 ^ 17, 10 ^ 19)) 1 True"
    by code_simp
  show "monitor_run ?cfg ?p
      [Fire, Settle 0 (ReservesCall (Returns (10 * 10 ^ 18, 1000 * 10 ^ 18))), Fire,
       Settle 0 (PriceCalls (\<lambda>i j. Some (4 * 10 ^ 17, 10 ^ 19))),
       Settle 1 (ReservesCall (Returns (4 * 10 ^ 17, 10 ^ 19))),
       Settle 0 (ApproveCalls \<lparr>allowance_call = Returns 0, approve_call = Returns (),
                  wait_call = Returns ()\<rparr>),
       Settle 0 (NonceCall (Returns 9)), Settle 0 (PopulateCall (Returns ())),
       Settle 0 (SignCall (Returns ())),
       Settle 0 (BroadcastRaces [Returns (Some ''0xsell'')])]
      (start_monitor ''0xA'' 8 ?p)
    = \<lparr>isSnipingActive = False, currentTargetToken = None, currentNonce = 10, sold = True,
        interval = False, highestPriceSeen = 4 * 10 ^ 22, ticks = [TickDone, TickDone],
        reasons = [profit_reason], approvals = [MaxUint256],
        broadcasts = [\<lparr>sell_amountIn = 1000, sell_nonce = 9\<rparr>]\<rparr>"
    by code_simp
qed

text \<open>
  Claim C5, amended. A tick of a running monitor reads the reserves for its liquidity
  check and finds the total liquidity below the minimum. If another tick has already
  set \<open>sold\<close>, the tick ends at once and nothing else changes. Otherwise it enters the
  selling path in the same segment, with the liquidity reason and without reading the
  price: it is suspended at the approval, \<open>sold\<close> is set, the timer is cancelled, nothing
  has been broadcast. From then on the only reason ever written is the liquidity reason,
  never the profit reason, whatever is read afterwards. When the approval and the calls
  that build the sale return, then, however the timer and the other ticks are
  interleaved with this tick, exactly one sell transaction is handed to the broadcaster,
  for the whole balance and with the nonce just read; the tick ends; and at no moment
  does the tick wait for the price.
\<close>

theorem liquidity_drop_precedes_profit:
  "m = monitor_run cfg p before (start_monitor token nonce p)
     \<and> i < length (ticks m) \<and> ticks m ! i = AwaitLiquidity
     \<and> etherNumber cfg (if tokenIsToken1 p then r0 else r1) * 2 < MIN_LIQUIDITY_BNB cfg
     \<and> m' = monitor_step cfg p (Settle i (ReservesCall (Returns (r0, r1)))) m
   \<longrightarrow> (sold m \<longrightarrow> m' = m\<lparr>ticks := (ticks m)[i := TickDone]\<rparr>)
     \<and> (\<not> sold m \<longrightarrow>
          reasons m' = [liquidity_reason] \<and> ticks m' ! i = AwaitApprove LiquidityCheck
          \<and> sold m' \<and> \<not> interval m' \<and> broadcasts m' = []
          \<and> (\<forall>later. reasons (monitor_run cfg p later m') = [liquidity_reason]
                   \<and> profit_reason \<notin> set (reasons (monitor_run cfg p later m')))
          \<and> (snd (approveToken chain (tokenBalance p)) = Returns ()
               \<and> list_all (not_for i) o1 \<and> list_all (not_for i) o2
               \<and> list_all (not_for i) o3 \<and> list_all (not_for i) o4
               \<and> list_all (not_for i) o5
               \<and> sched = o1 @ Settle i (ApproveCalls chain)
                        # o2 @ Settle i (NonceCall (Returns n))
                        # o3 @ Settle i (PopulateCall (Returns ()))
                        # o4 @ Settle i (SignCall (Returns ()))
                        # o5 @ Settle i (BroadcastRaces races) # rest
             \<longrightarrow> broadcasts (monitor_run cfg p sched m')
                   = [\<lparr>sell_amountIn = tokenBalance p, sell_nonce = n\<rparr>]
                 \<and> reasons (monitor_run cfg p sched m') = [liquidity_reason]
                 \<and> ticks (monitor_run cfg p sched m') ! i = TickDone
                 \<and> list_all (\<lambda>s. ticks s ! i \<noteq> AwaitPrice) (monitor_trace cfg p sched m')))"
proof
  assume a: "m = monitor_run cfg p before (start_monitor token nonce p)
     \<and> i < length (ticks m) \<and> ticks m ! i = AwaitLiquidity
     \<and> etherNumber cfg (if tokenIsToken1 p then r0 else r1) * 2 < MIN_LIQUIDITY_BNB cfg
     \<and> m' = monitor_step cfg p (Settle i (ReservesCall (Returns (r0, r1)))) m"
  from a have m: "m = monitor_run cfg p before (start_monitor token nonce p)"
    and i: "i < length (ticks m)" and at: "ticks m ! i = AwaitLiquidity"
    and low: "etherNumber cfg (if tokenIsToken1 p then r0 else r1) * 2 < MIN_LIQUIDITY_BNB cfg"
    and m': "m' = monitor_step cfg p (Settle i (ReservesCall (Returns (r0, r1)))) m"
    by blast+
  have inv: "monitor_inv m"
    unfolding m by (rule inv_run [OF inv_start])
  have step: "m' = executeSell liquidity_reason LiquidityCheck i m"
    unfolding m' using i at low by (simp add: monitor_step_def Let_def)
  have guard: "m' = m\<lparr>ticks := (ticks m)[i := TickDone]\<rparr>" if "sold m"
    unfolding step using that by (simp add: executeSell_def set_tick_def)
  have enter: "reasons m' = [liquidity_reason] \<and> ticks m' ! i = AwaitApprove LiquidityCheck
          \<and> sold m' \<and> \<not> interval m' \<and> broadcasts m' = []
          \<and> (\<forall>later. reasons (monitor_run cfg p later m') = [liquidity_reason]
                   \<and> profit_reason \<notin> set (reasons (monitor_run cfg p later m')))
          \<and> (snd (approveToken chain (tokenBalance p)) = Returns ()
               \<and> list_all (not_for i) o1 \<and> list_all (not_for i) o2
               \<and> list_all (not_for i) o3 \<and> list_all (not_for i) o4
               \<and> list_all (not_for i) o5
               \<and> sched = o1 @ Settle i (ApproveCalls chain)
                        # o2 @ Settle i (NonceCall (Returns n))
                        # o3 @ Settle i (PopulateCall (Returns ()))
                        # o4 @ Settle i (SignCall (Returns ()))
                        # o5 @ Settle i (BroadcastRaces races) # rest
             \<longrightarrow> broadcasts (monitor_run cfg p sched m')
                   = [\<lparr>sell_amountIn = tokenBalance p, sell_nonce = n\<rparr>]
                 \<and> reasons (monitor_run cfg p sched m') = [liquidity_reason]
                 \<and> ticks (monitor_run cfg p sched m') ! i = TickDone
                 \<and> list_all (\<lambda>s. ticks s ! i \<noteq> AwaitPrice) (monitor_trace cfg p sched m'))"
    if ns: "\<not> sold m"
  proof -
    have st0: "sale_stage i (AwaitApprove LiquidityCheck) [] m'" and c: "\<not> interval m'"
      using stage_enter [OF inv ns i at low] unfolding m' by simp_all
    then have r: "reasons m' = [liquidity_reason]"
      and t: "ticks m' ! i = AwaitApprove LiquidityCheck"
      and s: "sold m'" and b: "broadcasts m' = []"
      by (simp_all add: sale_stage_def)
    have ever: "\<forall>later. reasons (monitor_run cfg p later m') = [liquidity_reason]
                   \<and> profit_reason \<notin> set (reasons (monitor_run cfg p later m'))"
    proof
      fix later
      have "reasons (monitor_run cfg p later m') = [liquidity_reason]"
        using sold_kept_run [OF s, of cfg p later] r by simp
      then show "reasons (monitor_run cfg p later m') = [liquidity_reason]
                   \<and> profit_reason \<notin> set (reasons (monitor_run cfg p later m'))"
        using reasons_differ by simp
    qed
    have sale: "broadcasts (monitor_run cfg p sched m')
                   = [\<lparr>sell_amountIn = tokenBalance p, sell_nonce = n\<rparr>]
                 \<and> reasons (monitor_run cfg p sched m') = [liquidity_reason]
                 \<and> ticks (monitor_run cfg p sched m') ! i = TickDone
                 \<and> list_all (\<lambda>s. ticks s ! i \<noteq> AwaitPrice) (monitor_trace cfg p sched m')"
      if h: "snd (approveToken chain (tokenBalance p)) = Returns ()
               \<and> list_all (not_for i) o1 \<and> list_all (not_for i) o2
               \<and> list_all (not_for i) o3 \<and> list_all (not_for i) o4
               \<and> list_all (not_for i) o5
               \<and> sched = o1 @ Settle i (ApproveCalls chain)
                        # o2 @ Settle i (NonceCall (Returns n))
                        # o3 @ Settle i (PopulateCall (Returns ()))
                        # o4 @ Settle i (SignCall (Returns ()))
                        # o5 @ Settle i (BroadcastRaces races) # rest"
    proof -
      from h have ok: "snd (approveToken chain (tokenBalance p)) = Returns ()"
        and n1: "list_all (not_for i) o1" and n2: "list_all (not_for i) o2"
        and n3: "list_all (not_for i) o3" and n4: "list_all (not_for i) o4"
        and n5: "list_all (not_for i) o5"
        and sched: "sched = o1 @ Settle i (ApproveCalls chain)
                        # o2 @ Settle i (NonceCall (Returns n))
                        # o3 @ Settle i (PopulateCall (Returns ()))
                        # o4 @ Settle i (SignCall (Returns ()))
                        # o5 @ Settle i (BroadcastRaces races) # rest"
        by blast+
      let ?tx = "\<lparr>sell_amountIn = tokenBalance p, sell_nonce = n\<rparr>"
      let ?s1 = "monitor_run cfg p o1 m'"
      let ?m2 = "monitor_step cfg p (Settle i (ApproveCalls chain)) ?s1"
      let ?s2 = "monitor_run cfg p o2 ?m2"
      let ?m3 = "monitor_step cfg p (Settle i (NonceCall (Returns n))) ?s2"
      let ?s3 = "monitor_run cfg p o3 ?m3"
      let ?m4 = "monitor_step cfg p (Settle i (PopulateCall (Returns ()))) ?s3"
      let ?s4 = "monitor_run cfg p o4 ?m4"
      let ?m5 = "monitor_step cfg p (Settle i (SignCall (Returns ()))) ?s4"
      let ?s5 = "monitor_run cfg p o5 ?m5"
      let ?m6 = "monitor_step cfg p (Settle i (BroadcastRaces races)) ?s5"
      let ?s6 = "monitor_run cfg p rest ?m6"
      have r1: "sale_stage i (AwaitApprove LiquidityCheck) [] ?s1"
        and t1: "\<forall>s \<in> set (monitor_trace cfg p o1 m'). ticks s ! i = AwaitApprove LiquidityCheck"
        using other_run [OF st0 _ n1, of cfg p] by (simp_all add: selling_def)
      have st2: "sale_stage i (AwaitNonce LiquidityCheck) [] ?m2"
        using r1 ok by (rule stage_approve)
      have r2: "sale_stage i (AwaitNonce LiquidityCheck) [] ?s2"
        and t2: "\<forall>s \<in> set (monitor_trace cfg p o2 ?m2). ticks s ! i = AwaitNonce LiquidityCheck"
        using other_run [OF st2 _ n2, of cfg p] by (simp_all add: selling_def)
      have st3: "sale_stage i (AwaitPopulate LiquidityCheck n) [] ?m3"
        using r2 by (rule stage_nonce)
      have r3: "sale_stage i (AwaitPopulate LiquidityCheck n) [] ?s3"
        and t3: "\<forall>s \<in> set (monitor_trace cfg p o3 ?m3).
                   ticks s ! i = AwaitPopulate LiquidityCheck n"
        using other_run [OF st3 _ n3, of cfg p] by (simp_all add: selling_def)
      have st4: "sale_stage i (AwaitSign LiquidityCheck n) [] ?m4"
        using r3 by (rule stage_populate)
      have r4: "sale_stage i (AwaitSign LiquidityCheck n) [] ?s4"
        and t4: "\<forall>s \<in> set (monitor_trace cfg p o4 ?m4). ticks s ! i = AwaitSign LiquidityCheck n"
        using other_run [OF st4 _ n4, of cfg p] by (simp_all add: selling_def)
      have st5: "sale_stage i (AwaitSubmit LiquidityCheck n) [?tx] ?m5"
        using stage_sign [OF r4, of p cfg] by simp
      have r5: "sale_stage i (AwaitSubmit LiquidityCheck n) [?tx] ?s5"
        and t5: "\<forall>s \<in> set (monitor_trace cfg p o5 ?m5).
                   ticks s ! i = AwaitSubmit LiquidityCheck n"
        using other_run [OF st5 _ n5, of cfg p] by simp_all
      have st6: "sale_stage i TickDone [?tx] ?m6"
        using r5 by (rule stage_submit)
      have r6: "sale_stage i TickDone [?tx] ?s6"
        and t6: "\<forall>s \<in> set (monitor_trace cfg p rest ?m6). ticks s ! i = TickDone"
        using ended_run [OF st6, of cfg p rest] by simp_all
      have final: "monitor_run cfg p sched m' = ?s6"
        unfolding sched by (simp add: run_append)
      have path: "set (monitor_trace cfg p sched m')
          = set (monitor_trace cfg p o1 m') \<union> set (monitor_trace cfg p o2 ?m2)
            \<union> set (monitor_trace cfg p o3 ?m3) \<union> set (monitor_trace cfg p o4 ?m4)
            \<union> set (monitor_trace cfg p o5 ?m5) \<union> set (monitor_trace cfg p rest ?m6)
            \<union> {?s1, ?s2, ?s3, ?s4, ?s5}"
        unfolding sched by (simp add: trace_append run_append) blast
      have at1: "ticks ?s1 ! i = AwaitApprove LiquidityCheck"
        and at2: "ticks ?s2 ! i = AwaitNonce LiquidityCheck"
        and at3: "ticks ?s3 ! i = AwaitPopulate LiquidityCheck n"
        and at4: "ticks ?s4 ! i = AwaitSign LiquidityCheck n"
        and at5: "ticks ?s5 ! i = AwaitSubmit LiquidityCheck n"
        using r1 r2 r3 r4 r5 by (simp_all add: sale_stage_def)
      have "\<forall>s \<in> set (monitor_trace cfg p sched m'). ticks s ! i \<noteq> AwaitPrice"
      proof
        fix s
        assume "s \<in> set (monitor_trace cfg p sched m')"
        then consider "s \<in> set (monitor_trace cfg p o1 m')"
          | "s \<in> set (monitor_trace cfg p o2 ?m2)" | "s \<in> set (monitor_trace cfg p o3 ?m3)"
          | "s \<in> set (monitor_trace cfg p o4 ?m4)" | "s \<in> set (monitor_trace cfg p o5 ?m5)"
          | "s \<in> set (monitor_trace cfg p rest ?m6)"
          | "s = ?s1" | "s = ?s2" | "s = ?s3" | "s = ?s4" | "s = ?s5"
          unfolding path by blast
        then show "ticks s ! i \<noteq> AwaitPrice"
        proof cases
          case 1 with t1 show ?thesis by simp
        next
          case 2 with t2 show ?thesis by simp
        next
          case 3 with t3 show ?thesis by simp
        next
          case 4 with t4 show ?thesis by simp
        next
          case 5 with t5 show ?thesis by simp
        next
          case 6 with t6 show ?thesis by simp
        next
          case 7 with at1 show ?thesis by simp
        next
          case 8 with at2 show ?thesis by simp
        next
          case 9 with at3 show ?thesis by simp
        next
          case 10 with at4 show ?thesis by simp
        next
          case 11 with at5 show ?thesis by simp
        qed
      qed
      then have "list_all (\<lambda>s. ticks s ! i \<noteq> AwaitPrice) (monitor_trace cfg p sched m')"
        by (simp add: list_all_iff)
      with r6 show ?thesis
        unfolding final by (simp add: sale_stage_def)
    qed
    from r t s c b ever sale show ?thesis
      by blast
  qed
  from guard enter
  show "(sold m \<longrightarrow> m' = m\<lparr>ticks := (ticks m)[i := TickDone]\<rparr>)
     \<and> (\<not> sold m \<longrightarrow>
          reasons m' = [liquidity_reason] \<and> ticks m' ! i = AwaitApprove LiquidityCheck
          \<and> sold m' \<and> \<not> interval m' \<and> broadcasts m' = []
          \<and> (\<forall>later. reasons (monitor_run cfg p later m') = [liquidity_reason]
                   \<and> profit_reason \<notin> set (reasons (monitor_run cfg p later m')))
          \<and> (snd (approveToken chain (tokenBalance p)) = Returns ()
               \<and> list_all (not_for i) o1 \<and> list_all (not_for i) o2
               \<and> list_all (not_for i) o3 \<and> list_all (not_for i) o4
               \<and> list_all (not_for i) o5
               \<and> sched = o1 @ Settle i (ApproveCalls chain)
                        # o2 @ Settle i (NonceCall (Returns n))
                        # o3 @ Settle i (PopulateCall (Returns ()))
                        # o4 @ Settle i (SignCall (Returns ()))
                        # o5 @ Settle i (BroadcastRaces races) # rest
             \<longrightarrow> broadcasts (monitor_run cfg p sched m')
                   = [\<lparr>sell_amountIn = tokenBalance p, sell_nonce = n\<rparr>]
                 \<and> reasons (monitor_run cfg p sched m') = [liquidity_reason]
                 \<and> ticks (monitor_run cfg p sched m') ! i = TickDone
                 \<and> list_all (\<lambda>s. ticks s ! i \<noteq> AwaitPrice) (monitor_trace cfg p sched m')))"
    by blast
qed

lemma quiescent_step: "quiescent m \<Longrightarrow> monitor_step cfg p a m = m"
proof (cases a)
  case Fire
  assume "quiescent m"
  with Fire show ?thesis by (simp add: quiescent_def fire_cancelled)
next
  case (Settle i input)
  assume q: "quiescent m"
  show ?thesis
  proof (cases "i < length (ticks m)")
    case False
    with Settle show ?thesis by (simp add: monitor_step_def)
  next
    case True
    with q have "ticks m ! i = TickDone \<or> ticks m ! i = TickCrashed"
      by (simp add: quiescent_def list_all_length)
    with True Settle show ?thesis by (auto simp: monitor_step_def)
  qed
qed

lemma quiescent_run: "quiescent m \<Longrightarrow> monitor_run cfg p sched m = m"
  by (induction sched) (simp_all add: quiescent_step)


theorem at_most_one_sell_witness:
  "sold (monitor_run
      \<lparr>MIN_LIQUIDITY_BNB = 0, etherNumber = (\<lambda>w. of_int w / 10 ^ 18), name_keywords = [], toLowerCase = ascii_lower,
        spend = ''0.0005'', rpcProviders_length = 1\<rparr>
      \<lparr>tokenIsToken1 = True, tokenBalance = 1000, initialPrice = 10 ^ 22,
        initialLiquidityBNB = 0\<rparr>
      [Fire, Fire,
       Settle 0 (PriceCalls (\<lambda>i j. Some (11 * 10 ^ 18, 1000 * 10 ^ 18))),
       Settle 1 (PriceCalls (\<lambda>i j. Some (11 * 10 ^ 18, 1000 * 10 ^ 18))),
       Settle 0 (ApproveCalls \<lparr>allowance_call = Returns 0, approve_call = Returns (),
                  wait_call = Returns ()\<rparr>),
       Settle 0 (NonceCall (Returns 9)), Settle 0 (PopulateCall (Returns ())),
       Settle 0 (SignCall (Returns ())), Fire,
       Settle 0 (BroadcastRaces [Returns (Some ''0xsell'')])]
      (start_monitor ''0xA'' 8 \<lparr>tokenIsToken1 = True, tokenBalance = 1000,
         initialPrice = 10 ^ 22, initialLiquidityBNB = 0\<rparr>))
   \<and> monitor_step
      \<lparr>MIN_LIQUIDITY_BNB = 0, etherNumber = (\<lambda>w. of_int w / 10 ^ 18), name_keywords = [], toLowerCase = ascii_lower,
        spend = ''0.0005'', rpcProviders_length = 1\<rparr>
      \<lparr>tokenIsToken1 = True, tokenBalance = 1000, initialPrice = 10 ^ 22,
        initialLiquidityBNB = 0\<rparr> Fire
      \<lparr>isSnipingActive = False, currentTargetToken = None, currentNonce = 10, sold = True,
        interval = False, highestPriceSeen = 11 * 10 ^ 21, ticks = [TickDone, TickDone],
        reasons = [profit_reason], approvals = [MaxUint256],
        broadcasts = [\<lparr>sell_amountIn = 1000, sell_nonce = 9\<rparr>]\<rparr>
     = \<lparr>isSnipingActive = False, currentTargetToken = None, currentNonce = 10, sold = True,
        interval = False, highestPriceSeen = 11 * 10 ^ 21, ticks = [TickDone, TickDone],
        reasons = [profit_reason], approvals = [MaxUint256],
        broadcasts = [\<lparr>sell_amountIn = 1000, sell_nonce = 9\<rparr>]\<rparr>"
proof -
  let ?cfg = "\<lparr>MIN_LIQUIDITY_BNB = 0, etherNumber = (\<lambda>w. of_int w / 10 ^ 18),
        name_keywords = [], toLowerCase = ascii_lower, spend = ''0.0005'', rpcProviders_length = 1\<rparr>"
  let ?p = "\<lparr>tokenIsToken1 = True, tokenBalance = 1000, initialPrice = 10 ^ 22,
        initialLiquidityBNB = 0\<rparr>"
  let ?sched = "[Fire, Fire,
       Settle 0 (PriceCalls (\<lambda>i j. Some (11 * 10 ^ 18, 1000 * 10 ^ 18))),
       Settle 1 (PriceCalls (\<lambda>i j. Some (11 * 10 ^ 18, 1000 * 10 ^ 18))),
       Settle 0 (ApproveCalls \<lparr>allowance_call = Returns 0, approve_call = Returns (),
                  wait_call = Returns ()\<rparr>),
       Settle 0 (NonceCall (Returns 9)), Settle 0 (PopulateCall (Returns ())),
       Settle 0 (SignCall (Returns ())), Fire,
       Settle 0 (BroadcastRaces [Returns (Some ''0xsell'')])]"
  let ?final = "\<lparr>isSnipingActive = False, currentTargetToken = None, currentNonce = 10,
        sold = True, interval = False, highestPriceSeen = 11 * 10 ^ 21,
        ticks = [TickDone, TickDone], reasons = [profit_reason], approvals = [MaxUint256],
        broadcasts = [\<lparr>sell_amountIn = 1000, sell_nonce = 9\<rparr>]\<rparr>"
  have final: "monitor_run ?cfg ?p ?sched (start_monitor ''0xA'' 8 ?p) = ?final"
    by code_simp
  then have s: "sold (monitor_run ?cfg ?p ?sched (start_monitor ''0xA'' 8 ?p))"
    by simp
  with at_most_one_sell [of ?cfg ?p ?sched "''0xA''" 8]
  have "monitor_step ?cfg ?p Fire (monitor_run ?cfg ?p ?sched (start_monitor ''0xA'' 8 ?p))
      = monitor_run ?cfg ?p ?sched (start_monitor ''0xA'' 8 ?p)"
    by blast
  with s show ?thesis
    unfolding final by simp
qed

theorem liquidity_drop_precedes_profit_witness:
  "broadcasts (monitor_run
      \<lparr>MIN_LIQUIDITY_BNB = 1, etherNumber = (\<lambda>w. of_int w / 10 ^ 18), name_keywords = [],
        toLowerCase = ascii_lower, spend = ''0.0005'', rpcProviders_length = 1\<rparr>
      \<lparr>tokenIsToken1 = True, tokenBalance = 1000, initialPrice = 10 ^ 22,
        initialLiquidityBNB = 20\<rparr>
      [Settle 1 (ReservesCall (Returns (4 * 10 ^ 17, 10 ^ 19))),
       Settle 0 (ApproveCalls \<lparr>allowance_call = Returns 0, approve_call = Returns (),
                  wait_call = Returns ()\<rparr>),
       Fire, Settle 0 (NonceCall (Returns 9)), Settle 0 (PopulateCall (Returns ())),
       Settle 0 (SignCall (Returns ())),
       Settle 0 (BroadcastRaces [Returns (Some ''0xsell'')]), Fire]
      (monitor_step
        \<lparr>MIN_LIQUIDITY_BNB = 1, etherNumber = (\<lambda>w. of_int w / 10 ^ 18), name_keywords = [],
          toLowerCase = ascii_lower, spend = ''0.0005'', rpcProviders_length = 1\<rparr>
        \<lparr>tokenIsToken1 = True, tokenBalance = 1000, initialPrice = 10 ^ 22,
          initialLiquidityBNB = 20\<rparr>
        (Settle 0 (ReservesCall (Returns (4 * 10 ^ 17, 10 ^ 19))))
        (monitor_run
          \<lparr>MIN_LIQUIDITY_BNB = 1, etherNumber = (\<lambda>w. of_int w / 10 ^ 18),
            name_keywords = [], toLowerCase = ascii_lower, spend = ''0.0005'',
            rpcProviders_length = 1\<rparr>
          \<lparr>tokenIsToken1 = True, tokenBalance = 1000, initialPrice = 10 ^ 22,
            initialLiquidityBNB = 20\<rparr>
          [Fire, Fire]
          (start_monitor ''0xA'' 8 \<lparr>tokenIsToken1 = True, tokenBalance = 1000,
             initialPrice = 10 ^ 22, initialLiquidityBNB = 20\<rparr>))))
     = [\<lparr>sell_amountIn = 1000, sell_nonce = 9\<rparr>]
   \<and> reasons (monitor_run
      \<lparr>MIN_LIQUIDITY_BNB = 1, etherNumber = (\<lambda>w. of_int w / 10 ^ 18), name_keywords = [],
        toLowerCase = ascii_lower, spend = ''0.0005'', rpcProviders_length = 1\<rparr>
      \<lparr>tokenIsToken1 = True, tokenBalance = 1000, initialPrice = 10 ^ 22,
        initialLiquidityBNB = 20\<rparr>
      [Settle 1 (ReservesCall (Returns (4 * 10 ^ 17, 10 ^ 19))),
       Settle 0 (ApproveCalls \<lparr>allowance_call = Returns 0, approve_call = Returns (),
                  wait_call = Returns ()\<rparr>),
       Fire, Settle 0 (NonceCall (Returns 9)), Settle 0 (PopulateCall (Returns ())),
       Settle 0 (SignCall (Returns ())),
       Settle 0 (BroadcastRaces [Returns (Some ''0xsell'')]), Fire]
      (monitor_step
        \<lparr>MIN_LIQUIDITY_BNB = 1, etherNumber = (\<lambda>w. of_int w / 10 ^ 18), name_keywords = [],
          toLowerCase = ascii_lower, spend = ''0.0005'', rpcProviders_length = 1\<rparr>
        \<lparr>tokenIsToken1 = True, tokenBalance = 1000, initialPrice = 10 ^ 22,
          initialLiquidityBNB = 20\<rparr>
        (Settle 0 (ReservesCall (Returns (4 * 10 ^ 17, 10 ^ 19))))
        (monitor_run
          \<lparr>MIN_LIQUIDITY_BNB = 1, etherNumber = (\<lambda>w. of_int w / 10 ^ 18),
            name_keywords = [], toLowerCase = ascii_lower, spend = ''0.0005'',
            rpcProviders_length = 1\<rparr>
          \<lparr>tokenIsToken1 = True, tokenBalance = 1000, initialPrice = 10 ^ 22,
            initialLiquidityBNB = 20\<rparr>
          [Fire, Fire]
          (start_monitor ''0xA'' 8 \<lparr>tokenIsToken1 = True, tokenBalance = 1000,
             initialPrice = 10 ^ 22, initialLiquidityBNB = 20\<rparr>))))
     = [liquidity_reason]
   \<and> reasons (monitor_step
        \<lparr>MIN_LIQUIDITY_BNB = 1, etherNumber = (\<lambda>w. of_int w / 10 ^ 18), name_keywords = [],
          toLowerCase = ascii_lower, spend = ''0.0005'', rpcProviders_length = 1\<rparr>
        \<lparr>tokenIsToken1 = True, tokenBalance = 1000, initialPrice = 10 ^ 22,
          initialLiquidityBNB = 20\<rparr>
        (Settle 1 (ReservesCall (Returns (4 * 10 ^ 17, 10 ^ 19))))
        (monitor_run
          \<lparr>MIN_LIQUIDITY_BNB = 1, etherNumber = (\<lambda>w. of_int w / 10 ^ 18),
            name_keywords = [], toLowerCase = ascii_lower, spend = ''0.0005'',
            rpcProviders_length = 1\<rparr>
          \<lparr>tokenIsToken1 = True, tokenBalance = 1000, initialPrice = 10 ^ 22,
            initialLiquidityBNB = 20\<rparr>
          [Fire, Settle 0 (ReservesCall (Returns (10 * 10 ^ 18, 1000 * 10 ^ 18))), Fire,
           Settle 0 (PriceCalls (\<lambda>i j. Some (4 * 10 ^ 17, 10 ^ 19)))]
          (start_monitor ''0xA'' 8 \<lparr>tokenIsToken1 = True, tokenBalance = 1000,
             initialPrice = 10 ^ 22, initialLiquidityBNB = 20\<rparr>)))
     = [profit_reason]"
proof -
  let ?cfg = "\<lparr>MIN_LIQUIDITY_BNB = 1, etherNumber = (\<lambda>w. of_int w / 10 ^ 18),
        name_keywords = [], toLowerCase = ascii_lower, spend = ''0.0005'',
        rpcProviders_length = 1\<rparr>"
  let ?p = "\<lparr>tokenIsToken1 = True, tokenBalance = 1000, initialPrice = 10 ^ 22,
        initialLiquidityBNB = 20\<rparr>"
  let ?chain = "\<lparr>allowance_call = Returns 0, approve_call = Returns (),
        wait_call = Returns ()\<rparr>"
  let ?low = "ReservesCall (Returns (4 * 10 ^ 17, 10 ^ 19))"
  let ?o1 = "[Settle 1 ?low]"
  let ?o2 = "[Fire]"
  let ?none = "[] :: monitor_action list"
  let ?races = "[Returns (Some ''0xsell'')]"
  let ?sched = "[Settle 1 ?low, Settle 0 (ApproveCalls ?chain),
       Fire, Settle 0 (NonceCall (Returns 9)), Settle 0 (PopulateCall (Returns ())),
       Settle 0 (SignCall (Returns ())), Settle 0 (BroadcastRaces ?races), Fire]"
  let ?m = "monitor_run ?cfg ?p [Fire, Fire] (start_monitor ''0xA'' 8 ?p)"
  let ?m' = "monitor_step ?cfg ?p (Settle 0 ?low) ?m"
  have m: "?m = \<lparr>isSnipingActive = True, currentTargetToken = Some ''0xA'', currentNonce = 8,
        sold = False, interval = True, highestPriceSeen = 10 ^ 22,
        ticks = [AwaitLiquidity, AwaitLiquidity],
        reasons = [], approvals = [], broadcasts = []\<rparr>"
    by (simp add: monitor_step_def fire_def start_monitor_def)
  have not_sold: "\<not> sold ?m" and i: "0 < length (ticks ?m)"
    and at: "ticks ?m ! 0 = AwaitLiquidity"
    unfolding m by simp_all
  have low: "etherNumber ?cfg (if tokenIsToken1 ?p then 4 * 10 ^ 17 else 10 ^ 19) * 2
      < MIN_LIQUIDITY_BNB ?cfg"
    by simp
  have approved: "snd (approveToken ?chain (tokenBalance ?p)) = Returns ()"
    by (simp add: approveToken_def)
  have others: "list_all (not_for 0) ?o1" "list_all (not_for 0) ?o2"
    "list_all (not_for 0) ?none"
    by (simp_all add: not_for_def)
  have sched: "?sched = ?o1 @ Settle 0 (ApproveCalls ?chain)
                        # ?o2 @ Settle 0 (NonceCall (Returns 9))
                        # ?none @ Settle 0 (PopulateCall (Returns ()))
                        # ?none @ Settle 0 (SignCall (Returns ()))
                        # ?none @ Settle 0 (BroadcastRaces ?races) # [Fire]"
    by simp
  from liquidity_drop_precedes_profit
    [where m = ?m and cfg = ?cfg and p = ?p and before = "[Fire, Fire]" and token = "''0xA''"
       and nonce = 8 and i = 0 and ?r0.0 = "4 * 10 ^ 17" and ?r1.0 = "10 ^ 19" and m' = ?m'
       and chain = ?chain and ?o1.0 = ?o1 and ?o2.0 = ?o2 and ?o3.0 = ?none
       and ?o4.0 = ?none and ?o5.0 = ?none and sched = ?sched and n = 9
       and races = ?races and rest = "[Fire]"]
    not_sold i at low approved others sched
  have first: "broadcasts (monitor_run ?cfg ?p ?sched ?m')
        = [\<lparr>sell_amountIn = tokenBalance ?p, sell_nonce = 9\<rparr>]
      \<and> reasons (monitor_run ?cfg ?p ?sched ?m') = [liquidity_reason]"
    by blast
  let ?before = "[Fire, Settle 0 (ReservesCall (Returns (10 * 10 ^ 18, 1000 * 10 ^ 18))), Fire,
           Settle 0 (PriceCalls (\<lambda>i j. Some (4 * 10 ^ 17, 10 ^ 19)))]"
  let ?n = "monitor_run ?cfg ?p ?before (start_monitor ''0xA'' 8 ?p)"
  let ?n' = "monitor_step ?cfg ?p (Settle 1 ?low) ?n"
  have n: "?n = \<lparr>isSnipingActive = True, currentTargetToken = Some ''0xA'', currentNonce = 8,
        sold = True, interval = False, highestPriceSeen = 4 * 10 ^ 22,
        ticks = [AwaitApprove ProfitCheck, AwaitLiquidity],
        reasons = [profit_reason], approvals = [], broadcasts = []\<rparr>"
    by code_simp
  have was_sold: "sold ?n" and j: "1 < length (ticks ?n)"
    and at': "ticks ?n ! 1 = AwaitLiquidity" and written: "reasons ?n = [profit_reason]"
    unfolding n by simp_all
  from liquidity_drop_precedes_profit
    [where m = ?n and cfg = ?cfg and p = ?p and before = ?before and token = "''0xA''"
       and nonce = 8 and i = 1 and ?r0.0 = "4 * 10 ^ 17" and ?r1.0 = "10 ^ 19" and m' = ?n']
    was_sold j at' low
  have "?n' = ?n\<lparr>ticks := (ticks ?n)[1 := TickDone]\<rparr>"
    by blast
  then have "reasons ?n' = reasons (?n\<lparr>ticks := (ticks ?n)[1 := TickDone]\<rparr>)"
    by (rule arg_cong)
  with written have second: "reasons ?n' = [profit_reason]"
    by simp
  from first second show ?thesis
    by simp
qed

text \<open>The paths on which the lifecycle ends with the lock released.\<close>

lemma lifecycle_releases:
  "(fst (executeSwap buy False nonce) = Returns (SwapFailed message)
      \<longrightarrow> after_lock cfg buy chain h nonce
          = Ended \<lparr>isSnipingActive = False, currentTargetToken = None\<rparr>)
   \<and> (fst (executeSwap buy False nonce) = Returns (SwapSubmitted txHash tx) \<and> txHash \<noteq> []
        \<and> (\<forall>p. scheduleSellAfterBuy cfg chain (toLowerCase cfg (token0 h) = toLowerCase cfg WBNB)
                 \<noteq> Returns (Started p))
      \<longrightarrow> after_lock cfg buy chain h nonce
          = Ended \<lparr>isSnipingActive = False, currentTargetToken = None\<rparr>)"
  by (auto simp: after_lock_def unlock_def Let_def
      split: prod.splits outcome.splits swap_result.splits setup_result.splits)

lemma scheduleSellAfterBuy_not_started:
  "receipt_call chain \<noteq> Returns (Some 1)
   \<or> (\<forall>balance. balance_call chain = Returns balance \<longrightarrow> balance \<le> 0)
   \<or> getCurrentPriceFromReservesSafe (price_calls chain) (rpcProviders_length cfg) isToken1 = 0
   \<Longrightarrow> scheduleSellAfterBuy cfg chain isToken1 \<noteq> Returns (Started p)"
  by (auto simp: scheduleSellAfterBuy_def Let_def split: outcome.splits)

lemma sell_end_releases:
  assumes "i < length (ticks m)" "ticks m ! i = AwaitSubmit c n"
  shows "\<not> isSnipingActive (monitor_step cfg p (Settle i (BroadcastRaces races)) m)
       \<and> currentTargetToken (monitor_step cfg p (Settle i (BroadcastRaces races)) m) = None"
  using assms
  by (cases "submitRawTx_settled races")
    (simp_all add: monitor_step_def sell_failed_def sell_succeeded_def unlock_def)


text \<open>
  Claim C2, at a lifecycle in which the approval of the sell fails. The buy is
  submitted and confirmed, 1000 tokens are received, the entry price is read and the
  monitor starts. Its first tick finds the liquidity below the minimum and enters the
  selling path; the allowance call of \<^verbatim>\<open>approveToken\<close> throws; the \<open>try\<close> block of the
  liquidity check catches the exception and the tick ends after its price check. The
  timer is cancelled, no tick is left, and the lock is still taken: no later step
  changes the state.
\<close>

theorem lock_stuck_after_failed_approval:
  "after_lock
      \<lparr>MIN_LIQUIDITY_BNB = 1, etherNumber = (\<lambda>w. of_int w / 10 ^ 18), name_keywords = [], toLowerCase = ascii_lower,
        spend = ''0.0005'', rpcProviders_length = 1\<rparr>
      \<lparr>parseEther_call = Returns 500000000000000, getFeeData_call = Returns None,
        populate_call = Returns (), sign_call = Returns (),
        broadcast_races = [Returns (Some ''0xbuy'')], resync_call = Returns 0\<rparr>
      \<lparr>receipt_call = Returns (Some 1), balance_call = Returns 1000,
        price_calls = (\<lambda>i j. Some (10 * 10 ^ 18, 1000 * 10 ^ 18)),
        liquidity_call = Returns (10 * 10 ^ 18, 1000 * 10 ^ 18)\<rparr>
      \<lparr>pc = AwaitSwap, token0 = WBNB, token1 = ''0xA''\<rparr> 7
    = Monitoring
        \<lparr>tokenIsToken1 = True, tokenBalance = 1000, initialPrice = 10 ^ 22,
          initialLiquidityBNB = 20\<rparr>
        (start_monitor ''0xA'' 8 \<lparr>tokenIsToken1 = True, tokenBalance = 1000,
           initialPrice = 10 ^ 22, initialLiquidityBNB = 20\<rparr>)
   \<and> monitor_run
      \<lparr>MIN_LIQUIDITY_BNB = 1, etherNumber = (\<lambda>w. of_int w / 10 ^ 18), name_keywords = [], toLowerCase = ascii_lower,
        spend = ''0.0005'', rpcProviders_length = 1\<rparr>
      \<lparr>tokenIsToken1 = True, tokenBalance = 1000, initialPrice = 10 ^ 22,
        initialLiquidityBNB = 20\<rparr>
      [Fire, Settle 0 (ReservesCall (Returns (10 ^ 17, 5))),
       Settle 0 (ApproveCalls \<lparr>allowance_call = Throws ''execution reverted'',
                  approve_call = Returns (), wait_call = Returns ()\<rparr>),
       Settle 0 (PriceCalls (\<lambda>i j. Some (10 ^ 17, 5)))]
      (start_monitor ''0xA'' 8 \<lparr>tokenIsToken1 = True, tokenBalance = 1000,
         initialPrice = 10 ^ 22, initialLiquidityBNB = 20\<rparr>)
    = \<lparr>isSnipingActive = True, currentTargetToken = Some ''0xA'', currentNonce = 8,
        sold = True, interval = False, highestPriceSeen = 2 * 10 ^ 40, ticks = [TickDone],
        reasons = [liquidity_reason], approvals = [], broadcasts = []\<rparr>
   \<and> (\<forall>sched. monitor_run
      \<lparr>MIN_LIQUIDITY_BNB = 1, etherNumber = (\<lambda>w. of_int w / 10 ^ 18), name_keywords = [], toLowerCase = ascii_lower,
        spend = ''0.0005'', rpcProviders_length = 1\<rparr>
      \<lparr>tokenIsToken1 = True, tokenBalance = 1000, initialPrice = 10 ^ 22,
        initialLiquidityBNB = 20\<rparr> sched
      \<lparr>isSnipingActive = True, currentTargetToken = Some ''0xA'', currentNonce = 8,
        sold = True, interval = False, highestPriceSeen = 2 * 10 ^ 40, ticks = [TickDone],
        reasons = [liquidity_reason], approvals = [], broadcasts = []\<rparr>
    = \<lparr>isSnipingActive = True, currentTargetToken = Some ''0xA'', currentNonce = 8,
        sold = True, interval = False, highestPriceSeen = 2 * 10 ^ 40, ticks = [TickDone],
        reasons = [liquidity_reason], approvals = [], broadcasts = []\<rparr>)"
proof (intro conjI allI)
  let ?cfg = "\<lparr>MIN_LIQUIDITY_BNB = 1, etherNumber = (\<lambda>w. of_int w / 10 ^ 18),
        name_keywords = [], toLowerCase = ascii_lower, spend = ''0.0005'', rpcProviders_length = 1\<rparr>"
  let ?p = "\<lparr>tokenIsToken1 = True, tokenBalance = 1000, initialPrice = 10 ^ 22,
        initialLiquidityBNB = 20\<rparr>"
  let ?stuck = "\<lparr>isSnipingActive = True, currentTargetToken = Some ''0xA'', currentNonce = 8,
        sold = True, interval = False, highestPriceSeen = 2 * 10 ^ 40, ticks = [TickDone],
        reasons = [liquidity_reason], approvals = [], broadcasts = []\<rparr>"
  show "after_lock ?cfg
      \<lparr>parseEther_call = Returns 500000000000000, getFeeData_call = Returns None,
        populate_call = Returns (), sign_call = Returns (),
        broadcast_races = [Returns (Some ''0xbuy'')], resync_call = Returns 0\<rparr>
      \<lparr>receipt_call = Returns (Some 1), balance_call = Returns 1000,
        price_calls = (\<lambda>i j. Some (10 * 10 ^ 18, 1000 * 10 ^ 18)),
        liquidity_call = Returns (10 * 10 ^ 18, 1000 * 10 ^ 18)\<rparr>
      \<lparr>pc = AwaitSwap, token0 = WBNB, token1 = ''0xA''\<rparr> 7
    = Monitoring ?p (start_monitor ''0xA'' 8 ?p)"
    by code_simp
  show "monitor_run ?cfg ?p
      [Fire, Settle 0 (ReservesCall (Returns (10 ^ 17, 5))),
       Settle 0 (ApproveCalls \<lparr>allowance_call = Throws ''execution reverted'',
                  approve_call = Returns (), wait_call = Returns ()\<rparr>),
       Settle 0 (PriceCalls (\<lambda>i j. Some (10 ^ 17, 5)))]
      (start_monitor ''0xA'' 8 ?p) = ?stuck"
    by code_simp
  fix sched
  have "quiescent ?stuck" by (simp add: quiescent_def)
  then show "monitor_run ?cfg ?p sched ?stuck = ?stuck"
    by (rule quiescent_run)
qed

text \<open>
  The same failure after the profit check, where nothing catches the exception: the tick
  ends as a rejected promise and the lock stays taken.
\<close>

lemma lock_stuck_after_crashed_tick:
  "monitor_run
      \<lparr>MIN_LIQUIDITY_BNB = 0, etherNumber = (\<lambda>w. of_int w / 10 ^ 18), name_keywords = [], toLowerCase = ascii_lower,
        spend = ''0.0005'', rpcProviders_length = 1\<rparr>
      \<lparr>tokenIsToken1 = True, tokenBalance = 1000, initialPrice = 10 ^ 22,
        initialLiquidityBNB = 0\<rparr>
      ([Fire, Settle 0 (PriceCalls (\<lambda>i j. Some (11 * 10 ^ 18, 1000 * 10 ^ 18))),
        Settle 0 (ApproveCalls \<lparr>allowance_call = Throws ''execution reverted'',
                   approve_call = Returns (), wait_call = Returns ()\<rparr>)] @ sched)
      (start_monitor ''0xA'' 8 \<lparr>tokenIsToken1 = True, tokenBalance = 1000,
         initialPrice = 10 ^ 22, initialLiquidityBNB = 0\<rparr>)
    = \<lparr>isSnipingActive = True, currentTargetToken = Some ''0xA'', currentNonce = 8,
        sold = True, interval = False, highestPriceSeen = 11 * 10 ^ 21, ticks = [TickCrashed],
        reasons = [profit_reason], approvals = [], broadcasts = []\<rparr>"
proof -
  let ?cfg = "\<lparr>MIN_LIQUIDITY_BNB = 0, etherNumber = (\<lambda>w. of_int w / 10 ^ 18),
        name_keywords = [], toLowerCase = ascii_lower, spend = ''0.0005'', rpcProviders_length = 1\<rparr>"
  let ?p = "\<lparr>tokenIsToken1 = True, tokenBalance = 1000, initialPrice = 10 ^ 22,
        initialLiquidityBNB = 0\<rparr>"
  let ?stuck = "\<lparr>isSnipingActive = True, currentTargetToken = Some ''0xA'', currentNonce = 8,
        sold = True, interval = False, highestPriceSeen = 11 * 10 ^ 21, ticks = [TickCrashed],
        reasons = [profit_reason], approvals = [], broadcasts = []\<rparr>"
  have run_append: "monitor_run cfg p (xs @ ys) m = monitor_run cfg p ys (monitor_run cfg p xs m)"
    for cfg p xs ys m
    by (induction xs arbitrary: m) simp_all
  have first: "monitor_run ?cfg ?p
      [Fire, Settle 0 (PriceCalls (\<lambda>i j. Some (11 * 10 ^ 18, 1000 * 10 ^ 18))),
       Settle 0 (ApproveCalls \<lparr>allowance_call = Throws ''execution reverted'',
                  approve_call = Returns (), wait_call = Returns ()\<rparr>)]
      (start_monitor ''0xA'' 8 ?p) = ?stuck"
    by code_simp
  have "quiescent ?stuck" by (simp add: quiescent_def)
  then have "monitor_run ?cfg ?p sched ?stuck = ?stuck"
    by (rule quiescent_run)
  with first show ?thesis
    by (simp only: run_append)
qed

text \<open>
  A second way to the same state, before the monitor exists: the broadcast of the buy
  fails with a message that mentions the nonce, and the resynchronisation in the
  \<open>catch\<close> block of \<^verbatim>\<open>executeSwap\<close> throws. The handler is rejected at its
  \<^verbatim>\<open>await executeSwap\<close> and neither of its two branches runs.
\<close>

lemma lock_stuck_after_failed_resync:
  "after_lock cfg
      \<lparr>parseEther_call = Returns 500000000000000, getFeeData_call = Returns None,
        populate_call = Returns (), sign_call = Throws ''nonce too low'',
        broadcast_races = [], resync_call = Throws ''timeout''\<rparr>
      chain \<lparr>pc = AwaitSwap, token0 = WBNB, token1 = ''0xA''\<rparr> 7
    = Ended \<lparr>isSnipingActive = True, currentTargetToken = Some ''0xA''\<rparr>"
proof -
  have "executeSwap \<lparr>parseEther_call = Returns 500000000000000, getFeeData_call = Returns None,
        populate_call = Returns (), sign_call = Throws ''nonce too low'',
        broadcast_races = [], resync_call = Throws ''timeout''\<rparr> False 7
      = (Throws ''timeout'', 7)"
    by (simp add: executeSwap_def swap_try_def swap_gasPrice_def)
  moreover have "newToken cfg \<lparr>pc = AwaitSwap, token0 = WBNB, token1 = ''0xA''\<rparr> = ''0xA''"
    by (simp add: newToken_def)
  ultimately show ?thesis
    by (simp add: after_lock_def)
qed

end
